theory Spec2Isabelle
  imports Main
begin

section \<open>Data model\<close>

text \<open>
  The module of the repository is the Go type \<open>URLIPRange\<close> with its methods \<open>fetch\<close>,
  \<open>cachePath\<close>, \<open>loadFromCache\<close>, \<open>saveToCache\<close>, \<open>getPrefixes\<close>, \<open>Provision\<close>,
  \<open>refreshLoop\<close> and \<open>UnmarshalCaddyfile\<close>. Go strings are byte sequences: \<open>string\<close>.
  Every Go \<open>error\<close> value the methods build or pass on is a constructor of \<open>error\<close>; the
  text of an error made by a library is kept as a string.
\<close>

datatype error =
    NewRequestError string            \<comment> \<open>\<open>http.NewRequestWithContext\<close> failed\<close>
  | DoError string                    \<comment> \<open>\<open>http.DefaultClient.Do\<close> failed (transport)\<close>
  | HTTPStatusError string int        \<comment> \<open>\<open>fetch %s returned HTTP %d\<close>\<close>
  | ScanError string                  \<comment> \<open>\<open>scanner.Err()\<close> after the scan loop\<close>
  | CIDRError string                  \<comment> \<open>the error of \<open>caddyhttp.CIDRExpressionToPrefix\<close>\<close>
  | AfterRetries int "error option"   \<comment> \<open>\<open>after %d retries: %w\<close>; \<open>None\<close> is a nil \<open>lastErr\<close>\<close>
  | OSError string                    \<comment> \<open>an error of package \<open>os\<close>\<close>
  | JSONError string                  \<comment> \<open>\<open>json.Decoder.Decode\<close> or \<open>json.Encoder.Encode\<close> failed\<close>
  | InvalidCachePrefix string error   \<comment> \<open>\<open>invalid prefix in cache %q: %w\<close>\<close>
  | NoCacheAvailable error error      \<comment> \<open>\<open>failed to fetch initial IP ranges and no cache available\<close>\<close>
  | ArgErr                            \<comment> \<open>\<open>d.ArgErr()\<close>\<close>
  | DurationError string              \<comment> \<open>the error of \<open>caddy.ParseDuration\<close>\<close>
  | InvalidRetries string             \<comment> \<open>\<open>invalid retries value: %s\<close>\<close>

text \<open>The struct \<open>URLIPRange\<close>; \<open>'p\<close> is \<open>netip.Prefix\<close>. Durations are nanoseconds.\<close>

record 'p URLIPRange =
  URLs :: "string list"
  Interval :: int
  Timeout :: int
  Retries :: int
  CacheFile :: string
  ranges :: "'p list"

text \<open>The struct \<open>cacheFileContents\<close>; the time stamp is in seconds since the epoch.\<close>

record cacheFileContents =
  Prefixes :: "string list"
  UpdatedAt :: int

text \<open>
  What one call of \<open>http.DefaultClient.Do\<close> gives: an error, or a response with its
  status code, the bytes of the body that the \<open>bufio.Scanner\<close> turns into lines, and
  the error \<open>scanner.Err()\<close> reports once \<open>scanner.Scan()\<close> has returned false
  (\<open>None\<close> at a clean end of the body).
\<close>

datatype http_result =
    DoFails string
  | Responds int string "string option"

text \<open>
  The libraries and the surroundings the methods call. Each field stands for the function
  of that name; the methods of the module are defined over any such environment.
  \<open>Do url n\<close> is the outcome of the request to \<open>url\<close> that follows \<open>n\<close> earlier ones.
\<close>

record 'p env =
  NewRequestWithContext :: "string \<Rightarrow> string option"
  Do :: "string \<Rightarrow> nat \<Rightarrow> http_result"
  CIDRExpressionToPrefix :: "string \<Rightarrow> string + 'p"
  Prefix_String :: "'p \<Rightarrow> string"
  AppDataDir :: string
  Sum256_hex :: "string \<Rightarrow> string"
  filepath_Join :: "string \<Rightarrow> string \<Rightarrow> string"
  filepath_Dir :: "string \<Rightarrow> string"
  json_Encode :: "cacheFileContents \<Rightarrow> string"
  json_Decode :: "string \<Rightarrow> string + cacheFileContents"
  ParseDuration :: "string \<Rightarrow> string + int"
  Sscanf_d :: "string \<Rightarrow> int option"

datatype io_op =
    OpMkdirAll string
  | OpOpenFile string
  | OpWrite string
  | OpClose string
  | OpRemove string
  | OpRename string string
  | OpOpen string
  | OpRead string

datatype log_entry =
    WarnUsingCache error       \<comment> \<open>\<open>using cached IP ranges due to fetch failure on startup\<close>\<close>
  | WarnSaveFailed error       \<comment> \<open>\<open>failed to save IP ranges cache\<close>\<close>
  | WarnRefreshFailed error    \<comment> \<open>\<open>failed to refresh IP ranges; keeping existing cache\<close>\<close>
  | WarnRefreshSaveFailed error \<comment> \<open>\<open>failed to save IP ranges cache after refresh\<close>\<close>

text \<open>
  The state outside the module: \<open>requests url\<close> counts the calls of
  \<open>http.DefaultClient.Do\<close> for \<open>url\<close> so far, \<open>now\<close> is the clock in seconds,
  \<open>files\<close> maps a path to the bytes of the file there, \<open>io_fault\<close> says which file
  operations fail (and with what error), \<open>log\<close> collects the warnings and
  \<open>refresh_loops\<close> counts the \<open>refreshLoop\<close> goroutines started.
\<close>

record world =
  requests :: "string \<Rightarrow> nat"
  now :: int
  files :: "string \<rightharpoonup> string"
  io_fault :: "io_op \<Rightarrow> string option"
  log :: "log_entry list"
  refresh_loops :: nat

section \<open>Lines of a response body\<close>

text \<open>
  \<open>bufio.ScanLines\<close>, the scanner's split function: a line ends at a newline, one
  trailing carriage return is dropped, and a last line without a newline is a line when
  it is not empty.
\<close>

definition dropCR :: "string \<Rightarrow> string" where
  "dropCR data = (if data \<noteq> [] \<and> last data = CHR 0x0D then butlast data else data)"

fun ScanLines_from :: "string \<Rightarrow> string \<Rightarrow> string list" where
  "ScanLines_from cur [] = (if cur = [] then [] else [dropCR cur])"
| "ScanLines_from cur (c # cs) =
     (if c = CHR 0x0A then dropCR cur # ScanLines_from [] cs
      else ScanLines_from (cur @ [c]) cs)"

definition ScanLines :: "string \<Rightarrow> string list" where
  "ScanLines body = ScanLines_from [] body"

text \<open>
  \<open>strings.TrimSpace\<close> removes the leading and trailing white space runes of
  \<open>unicode.IsSpace\<close>. On bytes these are the six ASCII characters and the UTF-8
  encodings of U+0085, U+00A0, U+1680, U+2000 to U+200A, U+2028, U+2029, U+202F, U+205F
  and U+3000.
\<close>

definition asciiSpace :: "char list" where
  "asciiSpace = [CHR 0x09, CHR 0x0A, CHR 0x0B, CHR 0x0C, CHR 0x0D, CHR 0x20]"

definition space_runes :: "string list" where
  "space_runes =
     map (\<lambda>c. [c]) asciiSpace @
     [[CHR 0xC2, CHR 0x85], [CHR 0xC2, CHR 0xA0], [CHR 0xE1, CHR 0x9A, CHR 0x80]] @
     map (\<lambda>c. [CHR 0xE2, CHR 0x80, c])
       [CHR 0x80, CHR 0x81, CHR 0x82, CHR 0x83, CHR 0x84, CHR 0x85, CHR 0x86, CHR 0x87,
        CHR 0x88, CHR 0x89, CHR 0x8A, CHR 0xA8, CHR 0xA9, CHR 0xAF] @
     [[CHR 0xE2, CHR 0x81, CHR 0x9F], [CHR 0xE3, CHR 0x80, CHR 0x80]]"

function strip_leading :: "string list \<Rightarrow> string \<Rightarrow> string" where
  "strip_leading ps s =
     (case find (\<lambda>p. p \<noteq> [] \<and> take (length p) s = p) ps of
        None \<Rightarrow> s
      | Some p \<Rightarrow> strip_leading ps (drop (length p) s))"
  by pat_completeness auto
termination
proof (relation "measure (\<lambda>(ps, s). length s)")
  show "wf (measure (\<lambda>(ps, s). length s))" by simp
next
  fix ps :: "string list" and s p :: string
  assume "find (\<lambda>p. p \<noteq> [] \<and> take (length p) s = p) ps = Some p"
  then have "p \<noteq> []" and "take (length p) s = p"
    by (auto simp: find_Some_iff)
  then have "s \<noteq> []" by auto
  with \<open>p \<noteq> []\<close> show "((ps, drop (length p) s), (ps, s)) \<in> measure (\<lambda>(ps, s). length s)"
    by simp
qed

declare strip_leading.simps [simp del]

definition TrimSpace :: "string \<Rightarrow> string" where
  "TrimSpace s = rev (strip_leading (map rev space_runes) (rev (strip_leading space_runes s)))"

text \<open>
  The body of the scan loop of \<open>fetch\<close> for one line: cut the line at the first \<open>#\<close>,
  trim it, skip it when nothing is left, convert it otherwise.
\<close>

datatype 'p line_result = Skipped | Failed string | Parsed 'p

definition strip_comment :: "string \<Rightarrow> string" where
  "strip_comment line = takeWhile (\<lambda>c. c \<noteq> CHR ''#'') line"

definition parse_line :: "(string \<Rightarrow> string + 'p) \<Rightarrow> string \<Rightarrow> 'p line_result" where
  "parse_line cidr l =
     (let line = TrimSpace (strip_comment l) in
      if line = [] then Skipped
      else case cidr line of Inl err \<Rightarrow> Failed err | Inr prefix \<Rightarrow> Parsed prefix)"

text \<open>The scan loop: the first line that fails ends it with that error.\<close>

fun scan_loop :: "(string \<Rightarrow> string + 'p) \<Rightarrow> string list \<Rightarrow> 'p list \<Rightarrow> string + 'p list" where
  "scan_loop cidr [] prefixes = Inr prefixes"
| "scan_loop cidr (l # ls) prefixes =
     (case parse_line cidr l of
        Skipped \<Rightarrow> scan_loop cidr ls prefixes
      | Failed err \<Rightarrow> Inl err
      | Parsed prefix \<Rightarrow> scan_loop cidr ls (prefixes @ [prefix]))"

section \<open>fetch\<close>

text \<open>
  One turn of the loop of \<open>fetch\<close> ends in one of three ways: the function returns, the
  loop goes on to the next attempt with a new \<open>lastErr\<close>, or the loop is left by
  \<open>break\<close>.
\<close>

datatype 'p attempt_result =
    Return "error + 'p list"
  | Retry error
  | Break error

text \<open>
  What \<open>fetch\<close> does with the outcome of \<open>http.DefaultClient.Do\<close>: an error and a status
  outside 200 to 299 set \<open>lastErr\<close>; otherwise the body is scanned, a line that does not
  convert returns its error at once, and after the last line an error of the scanner
  sets \<open>lastErr\<close> while a clean end returns the prefixes.
\<close>

definition attempt_outcome ::
  "(string \<Rightarrow> string + 'p) \<Rightarrow> string \<Rightarrow> http_result \<Rightarrow> 'p attempt_result"
where
  "attempt_outcome cidr api r =
     (case r of
        DoFails err \<Rightarrow> Retry (DoError err)
      | Responds status body scanErr \<Rightarrow>
          if status < 200 \<or> status > 299 then Retry (HTTPStatusError api status)
          else
            (case scan_loop cidr (ScanLines body) [] of
               Inl err \<Rightarrow> Return (Inl (CIDRError err))
             | Inr prefixes \<Rightarrow>
                 (case scanErr of
                    Some err \<Rightarrow> Retry (ScanError err)
                  | None \<Rightarrow> Return (Inr prefixes))))"

definition attempt_once :: "'p env \<Rightarrow> string \<Rightarrow> world \<Rightarrow> 'p attempt_result \<times> world" where
  "attempt_once e api w =
     (case NewRequestWithContext e api of
        Some err \<Rightarrow> (Break (NewRequestError err), w)
      | None \<Rightarrow>
          (attempt_outcome (CIDRExpressionToPrefix e) api (Do e api (requests w api)),
           w\<lparr>requests := (requests w)(api := Suc (requests w api))\<rparr>))"

definition Sleep :: "world \<Rightarrow> world" where
  "Sleep w = w\<lparr>now := now w + 1\<rparr>"

function fetch_loop ::
  "'p env \<Rightarrow> 'p URLIPRange \<Rightarrow> string \<Rightarrow> int \<Rightarrow> error option \<Rightarrow> world \<Rightarrow> (error + 'p list) \<times> world"
where
  "fetch_loop e s api attempt lastErr w =
     (if attempt \<le> Retries s then
        (case attempt_once e api w of
           (Return r, w1) \<Rightarrow> (r, w1)
         | (Break err, w1) \<Rightarrow> (Inl (AfterRetries (Retries s) (Some err)), w1)
         | (Retry err, w1) \<Rightarrow>
             fetch_loop e s api (attempt + 1) (Some err)
               (if attempt < Retries s then Sleep w1 else w1))
      else (Inl (AfterRetries (Retries s) lastErr), w))"
  by pat_completeness auto
termination
  by (relation "measure (\<lambda>(e, s, api, attempt, lastErr, w). nat (Retries s + 1 - attempt))") auto

declare fetch_loop.simps [simp del]

definition fetch :: "'p env \<Rightarrow> 'p URLIPRange \<Rightarrow> string \<Rightarrow> world \<Rightarrow> (error + 'p list) \<times> world" where
  "fetch e s api w = fetch_loop e s api 0 None w"

section \<open>The cache file\<close>

fun strings_Join :: "string list \<Rightarrow> string \<Rightarrow> string" where
  "strings_Join [] sep = []"
| "strings_Join [a] sep = a"
| "strings_Join (a # b # elems) sep = a @ sep @ strings_Join (b # elems) sep"

text \<open>\<open>cachePath\<close> returns a path and an error; the error is nil on both of its paths.\<close>

definition cachePath :: "'p env \<Rightarrow> 'p URLIPRange \<Rightarrow> error + string" where
  "cachePath e s =
     (if CacheFile s \<noteq> [] then Inr (CacheFile s)
      else
        (let joined = strings_Join (URLs s) ''|'';
             name = ''ip-list-cache-'' @ Sum256_hex e joined @ ''.json'';
             dir = (if AppDataDir e = [] then ''.'' else AppDataDir e)
         in Inr (filepath_Join e dir name)))"

text \<open>
  The file operations of package \<open>os\<close> on the \<open>files\<close> of the world. Directories are
  not part of the model: \<open>os.MkdirAll\<close> only succeeds or fails.
\<close>

definition os_Open :: "world \<Rightarrow> string \<Rightarrow> error + string" where
  "os_Open w path =
     (case io_fault w (OpOpen path) of
        Some msg \<Rightarrow> Inl (OSError msg)
      | None \<Rightarrow>
          (case files w path of
             None \<Rightarrow> Inl (OSError ''no such file or directory'')
           | Some bytes \<Rightarrow> Inr bytes))"

definition os_Remove :: "string \<Rightarrow> world \<Rightarrow> world" where
  "os_Remove path w =
     (case io_fault w (OpRemove path) of
        Some msg \<Rightarrow> w
      | None \<Rightarrow> w\<lparr>files := (files w)(path := None)\<rparr>)"

definition os_Rename :: "string \<Rightarrow> string \<Rightarrow> world \<Rightarrow> error option \<times> world" where
  "os_Rename oldpath newpath w =
     (case io_fault w (OpRename oldpath newpath) of
        Some msg \<Rightarrow> (Some (OSError msg), w)
      | None \<Rightarrow>
          (case files w oldpath of
             None \<Rightarrow> (Some (OSError ''no such file or directory''), w)
           | Some bytes \<Rightarrow>
               (None, w\<lparr>files := (files w)(oldpath := None, newpath \<mapsto> bytes)\<rparr>)))"

text \<open>The loop of \<open>loadFromCache\<close> over the strings of the decoded file.\<close>

fun cache_loop :: "(string \<Rightarrow> string + 'p) \<Rightarrow> string list \<Rightarrow> 'p list \<Rightarrow> error + 'p list" where
  "cache_loop cidr [] prefixes = Inr prefixes"
| "cache_loop cidr (p # ps) prefixes =
     (case cidr p of
        Inl err \<Rightarrow> Inl (InvalidCachePrefix p (CIDRError err))
      | Inr prefix \<Rightarrow> cache_loop cidr ps (prefixes @ [prefix]))"

definition loadFromCache :: "'p env \<Rightarrow> 'p URLIPRange \<Rightarrow> world \<Rightarrow> error + 'p list" where
  "loadFromCache e s w =
     (case cachePath e s of
        Inl err \<Rightarrow> Inl err
      | Inr path \<Rightarrow>
          (case os_Open w path of
             Inl err \<Rightarrow> Inl err
           | Inr bytes \<Rightarrow>
               (case io_fault w (OpRead path) of
                  Some msg \<Rightarrow> Inl (OSError msg)
                | None \<Rightarrow>
                    (case json_Decode e bytes of
                       Inl msg \<Rightarrow> Inl (JSONError msg)
                     | Inr contents \<Rightarrow>
                         cache_loop (CIDRExpressionToPrefix e) (Prefixes contents) []))))"

text \<open>
  \<open>saveToCache\<close> writes the temporary file beside the cache file and renames it. A
  write that fails leaves the temporary file as \<open>os.OpenFile\<close> truncated it, until
  \<open>os.Remove\<close> deletes it.
\<close>

definition saveToCache :: "'p env \<Rightarrow> 'p URLIPRange \<Rightarrow> 'p list \<Rightarrow> world \<Rightarrow> error option \<times> world" where
  "saveToCache e s prefixes w =
     (case cachePath e s of
        Inl err \<Rightarrow> (Some err, w)
      | Inr path \<Rightarrow>
          (case io_fault w (OpMkdirAll (filepath_Dir e path)) of
             Some msg \<Rightarrow> (Some (OSError msg), w)
           | None \<Rightarrow>
               (let contents = \<lparr>Prefixes = map (Prefix_String e) prefixes, UpdatedAt = now w\<rparr>;
                    tmp = path @ ''.tmp''
                in case io_fault w (OpOpenFile tmp) of
                     Some msg \<Rightarrow> (Some (OSError msg), w)
                   | None \<Rightarrow>
                       (let w1 = w\<lparr>files := (files w)(tmp \<mapsto> [])\<rparr>
                        in case io_fault w (OpWrite tmp) of
                             Some msg \<Rightarrow> (Some (OSError msg), os_Remove tmp w1)
                           | None \<Rightarrow>
                               (let w2 = w1\<lparr>files := (files w1)(tmp \<mapsto> json_Encode e contents)\<rparr>
                                in case io_fault w (OpClose tmp) of
                                     Some msg \<Rightarrow> (Some (OSError msg), os_Remove tmp w2)
                                   | None \<Rightarrow> os_Rename tmp path w2)))))"

section \<open>getPrefixes, Provision and refreshLoop\<close>

fun getPrefixes_loop ::
  "'p env \<Rightarrow> 'p URLIPRange \<Rightarrow> string list \<Rightarrow> 'p list \<Rightarrow> world \<Rightarrow> (error + 'p list) \<times> world"
where
  "getPrefixes_loop e s [] fullPrefixes w = (Inr fullPrefixes, w)"
| "getPrefixes_loop e s (url # urls) fullPrefixes w =
     (case fetch e s url w of
        (Inl err, w1) \<Rightarrow> (Inl err, w1)
      | (Inr prefixes, w1) \<Rightarrow> getPrefixes_loop e s urls (fullPrefixes @ prefixes) w1)"

definition getPrefixes :: "'p env \<Rightarrow> 'p URLIPRange \<Rightarrow> world \<Rightarrow> (error + 'p list) \<times> world" where
  "getPrefixes e s w = getPrefixes_loop e s (URLs s) [] w"

text \<open>\<open>go s.refreshLoop()\<close>: one more background loop runs.\<close>

definition go_refreshLoop :: "world \<Rightarrow> world" where
  "go_refreshLoop w = w\<lparr>refresh_loops := Suc (refresh_loops w)\<rparr>"

definition warn :: "log_entry \<Rightarrow> world \<Rightarrow> world" where
  "warn entry w = w\<lparr>log := log w @ [entry]\<rparr>"

text \<open>
  \<open>Provision\<close> returns its error, the module as it leaves it and the world. The logger
  of a Caddy context is never nil, so the warnings are always written.
\<close>

definition Provision ::
  "'p env \<Rightarrow> 'p URLIPRange \<Rightarrow> world \<Rightarrow> error option \<times> 'p URLIPRange \<times> world"
where
  "Provision e s w =
     (case getPrefixes e s w of
        (Inl err, w1) \<Rightarrow>
          (case loadFromCache e s w1 of
             Inl cacheErr \<Rightarrow> (Some (NoCacheAvailable err cacheErr), s, w1)
           | Inr cached \<Rightarrow>
               (None, s\<lparr>ranges := cached\<rparr>, go_refreshLoop (warn (WarnUsingCache err) w1)))
      | (Inr initialRanges, w1) \<Rightarrow>
          (let s1 = s\<lparr>ranges := initialRanges\<rparr> in
           case saveToCache e s1 initialRanges w1 of
             (Some err, w2) \<Rightarrow> (None, s1, go_refreshLoop (warn (WarnSaveFailed err) w2))
           | (None, w2) \<Rightarrow> (None, s1, go_refreshLoop w2)))"

text \<open>
  The \<open>select\<close> of \<open>refreshLoop\<close> takes one of two events. \<open>refresh_tick\<close> is the case
  \<open>ticker.C\<close>: one refresh cycle.
\<close>

datatype event = Tick | Done

definition refresh_tick :: "'p env \<Rightarrow> 'p URLIPRange \<Rightarrow> world \<Rightarrow> 'p URLIPRange \<times> world" where
  "refresh_tick e s w =
     (case getPrefixes e s w of
        (Inl err, w1) \<Rightarrow> (s, warn (WarnRefreshFailed err) w1)
      | (Inr fullPrefixes, w1) \<Rightarrow>
          (let s1 = s\<lparr>ranges := fullPrefixes\<rparr> in
           case saveToCache e s1 fullPrefixes w1 of
             (Some err, w2) \<Rightarrow> (s1, warn (WarnRefreshSaveFailed err) w2)
           | (None, w2) \<Rightarrow> (s1, w2)))"

text \<open>
  The loop over the events that arrive; the result says whether the loop still runs
  (it has not seen \<open>Done\<close>).
\<close>

fun refreshLoop_events ::
  "'p env \<Rightarrow> event list \<Rightarrow> 'p URLIPRange \<Rightarrow> world \<Rightarrow> bool \<times> 'p URLIPRange \<times> world"
where
  "refreshLoop_events e [] s w = (True, s, w)"
| "refreshLoop_events e (Tick # evs) s w =
     (case refresh_tick e s w of (s1, w1) \<Rightarrow> refreshLoop_events e evs s1 w1)"
| "refreshLoop_events e (Done # evs) s w = (False, s, w)"

text \<open>
  \<open>refreshLoop\<close> replaces an interval of zero by one hour and creates the ticker before
  it enters the loop. \<open>time.NewTicker\<close> panics when its duration is not positive, which
  a negative interval reaches: \<open>Inl\<close> is that panic, and no event is handled.
\<close>

definition refreshLoop ::
  "'p env \<Rightarrow> event list \<Rightarrow> 'p URLIPRange \<Rightarrow> world \<Rightarrow> string + bool \<times> 'p URLIPRange \<times> world"
where
  "refreshLoop e evs s w =
     (let s1 = (if Interval s = 0 then s\<lparr>Interval := 3600000000000\<rparr> else s) in
      if Interval s1 \<le> 0 then Inl ''non-positive interval for NewTicker''
      else Inr (refreshLoop_events e evs s1 w))"

section \<open>UnmarshalCaddyfile\<close>

text \<open>
  The dispenser hands out the tokens of the configuration block. A token of the block is
  paired with \<open>True\<close> when it is the first of its line: \<open>d.NextBlock\<close> moves to the
  next token wherever it is, \<open>d.NextArg\<close> only to one on the same line. The block holds
  no nested braces. \<open>Sscanf_d\<close> is \<open>fmt.Sscanf\<close> with the format \<open>%d\<close>.
\<close>

fun unmarshal_block ::
  "'p env \<Rightarrow> (string \<times> bool) list \<Rightarrow> 'p URLIPRange \<Rightarrow> error + 'p URLIPRange"
where
  "unmarshal_block e [] m = Inr m"
| "unmarshal_block e [(d, nl)] m = Inl ArgErr"
| "unmarshal_block e ((d, nl) # (v, first) # rest) m =
     (if d = ''interval'' then
        (if first then Inl ArgErr
         else case ParseDuration e v of
                Inl err \<Rightarrow> Inl (DurationError err)
              | Inr val \<Rightarrow> unmarshal_block e rest (m\<lparr>Interval := val\<rparr>))
      else if d = ''timeout'' then
        (if first then Inl ArgErr
         else case ParseDuration e v of
                Inl err \<Rightarrow> Inl (DurationError err)
              | Inr val \<Rightarrow> unmarshal_block e rest (m\<lparr>Timeout := val\<rparr>))
      else if d = ''retries'' then
        (if first then Inl ArgErr
         else case Sscanf_d e v of
                None \<Rightarrow> Inl (InvalidRetries v)
              | Some n \<Rightarrow>
                  if n < 0 then Inl (InvalidRetries v)
                  else unmarshal_block e rest (m\<lparr>Retries := n\<rparr>))
      else if d = ''cache_file'' then
        (if first then Inl ArgErr
         else unmarshal_block e rest (m\<lparr>CacheFile := v\<rparr>))
      else if d = ''url'' then
        (if first then Inl ArgErr
         else unmarshal_block e rest (m\<lparr>URLs := URLs m @ [v]\<rparr>))
      else Inl ArgErr)"

text \<open>
  \<open>args\<close> are the tokens that follow the module name on its line, \<open>block\<close> the tokens
  between the braces (none when there is no block).
\<close>

definition UnmarshalCaddyfile ::
  "'p env \<Rightarrow> string list \<Rightarrow> (string \<times> bool) list \<Rightarrow> 'p URLIPRange \<Rightarrow> error + 'p URLIPRange"
where
  "UnmarshalCaddyfile e args block m =
     (if args \<noteq> [] then Inl ArgErr else unmarshal_block e block m)"

text \<open>The zero value \<open>URLIPRange{}\<close>.\<close>

definition URLIPRange_zero :: "'p URLIPRange" where
  "URLIPRange_zero =
     \<lparr>URLs = [], Interval = 0, Timeout = 0, Retries = 0, CacheFile = [], ranges = []\<rparr>"

section \<open>A concrete environment\<close>

text \<open>
  Modelled from the spec: \<open>caddyhttp.CIDRExpressionToPrefix\<close>, \<open>netip.Prefix.String\<close>,
  \<open>encoding/json\<close>, \<open>crypto/sha256\<close>, \<open>path/filepath\<close>, \<open>caddy.ParseDuration\<close> and
  \<open>fmt.Sscanf\<close> are libraries outside the repository. The theorems below hold for every
  environment; the definitions of this section instantiate them at concrete inputs. They
  cover IPv4 only: a prefix is four octets and a length, written \<open>a.b.c.d/n\<close> without
  leading zeros, and an address without a length has length 32. The cache file is the
  object \<open>{"prefixes":[...],"updated_at":n}\<close> on one line, the digest of a string is its
  bytes in hexadecimal, and a duration is a number of seconds followed by \<open>s\<close>.
\<close>

datatype ipv4_prefix = IPv4Prefix nat nat nat nat nat

definition digit_chars :: string where
  "digit_chars = ''0123456789''"

definition digit_char :: "nat \<Rightarrow> char" where
  "digit_char n = digit_chars ! (n mod 10)"

function show_digits :: "int \<Rightarrow> string" where
  "show_digits n =
     (if n < 10 then [digit_char (nat n)] else show_digits (n div 10) @ [digit_char (nat (n mod 10))])"
  by pat_completeness auto
termination
  by (relation "measure nat") auto

declare show_digits.simps [simp del]

definition show_int :: "int \<Rightarrow> string" where
  "show_int n = (if n < 0 then ''-'' @ show_digits (- n) else show_digits n)"

definition show_nat :: "nat \<Rightarrow> string" where
  "show_nat n = show_digits (int n)"

definition read_digits :: "string \<Rightarrow> int option" where
  "read_digits s =
     (if s = [] \<or> (\<exists>c \<in> set s. c \<notin> set digit_chars) \<or> (length s > 1 \<and> hd s = CHR ''0'')
      then None
      else Some (foldl (\<lambda>n c. 10 * n + (of_char c - 48)) 0 s))"

definition read_nat :: "string \<Rightarrow> nat option" where
  "read_nat s = map_option nat (read_digits s)"

definition scan_int :: "string \<Rightarrow> int option" where
  "scan_int v =
     (if v \<noteq> [] \<and> hd v = CHR ''-'' then map_option uminus (read_digits (tl v))
      else read_digits v)"

fun split_at :: "char \<Rightarrow> string \<Rightarrow> string \<Rightarrow> string list" where
  "split_at sep cur [] = [cur]"
| "split_at sep cur (c # cs) =
     (if c = sep then cur # split_at sep [] cs else split_at sep (cur @ [c]) cs)"

definition ipv4_of_string :: "string \<Rightarrow> string + ipv4_prefix" where
  "ipv4_of_string expr =
     (let parts = split_at (CHR ''/'') [] expr;
          bits = (if length parts = 1 then Some 32
                  else if length parts = 2 then read_nat (parts ! 1) else None)
      in case map read_nat (split_at (CHR ''.'') [] (hd parts)) of
           [Some a, Some b, Some c, Some d] \<Rightarrow>
             (case bits of
                Some n \<Rightarrow>
                  if a \<le> 255 \<and> b \<le> 255 \<and> c \<le> 255 \<and> d \<le> 255 \<and> n \<le> 32
                  then Inr (IPv4Prefix a b c d n)
                  else Inl expr
              | None \<Rightarrow> Inl expr)
         | _ \<Rightarrow> Inl expr)"

fun ipv4_to_string :: "ipv4_prefix \<Rightarrow> string" where
  "ipv4_to_string (IPv4Prefix a b c d n) =
     show_nat a @ ''.'' @ show_nat b @ ''.'' @ show_nat c @ ''.'' @ show_nat d @ ''/'' @ show_nat n"

definition quote :: "string \<Rightarrow> string" where
  "quote s = [CHR 0x22] @ s @ [CHR 0x22]"

definition encode_contents :: "cacheFileContents \<Rightarrow> string" where
  "encode_contents c =
     ''{'' @ quote ''prefixes'' @ '':['' @ strings_Join (map quote (Prefixes c)) '','' @ ''],'' @
     quote ''updated_at'' @ '':'' @ show_int (UpdatedAt c) @ ''}''"

definition unquote :: "string \<Rightarrow> string option" where
  "unquote s =
     (if length s \<ge> 2 \<and> hd s = CHR 0x22 \<and> last s = CHR 0x22 \<and> CHR 0x22 \<notin> set (butlast (tl s))
      then Some (butlast (tl s)) else None)"

definition strip_prefix :: "string \<Rightarrow> string \<Rightarrow> string option" where
  "strip_prefix p s = (if take (length p) s = p then Some (drop (length p) s) else None)"

definition decode_contents :: "string \<Rightarrow> string + cacheFileContents" where
  "decode_contents bytes =
     (case strip_prefix (''{'' @ quote ''prefixes'' @ '':['') bytes of
        None \<Rightarrow> Inl ''invalid character''
      | Some rest \<Rightarrow>
          (let items = takeWhile (\<lambda>c. c \<noteq> CHR '']'') rest;
               strs = (if items = [] then [] else map unquote (split_at (CHR '','') [] items))
           in case strip_prefix ('']'' @ '','' @ quote ''updated_at'' @ '':'')
                     (dropWhile (\<lambda>c. c \<noteq> CHR '']'') rest) of
                None \<Rightarrow> Inl ''invalid character''
              | Some tail \<Rightarrow>
                  (case scan_int (takeWhile (\<lambda>c. c \<noteq> CHR ''}'') tail) of
                     None \<Rightarrow> Inl ''invalid character''
                   | Some t \<Rightarrow>
                       if None \<in> set strs \<or> dropWhile (\<lambda>c. c \<noteq> CHR ''}'') tail \<noteq> ''}''
                       then Inl ''invalid character''
                       else Inr \<lparr>Prefixes = map the strs, UpdatedAt = t\<rparr>)))"

definition hex_chars :: string where
  "hex_chars = ''0123456789abcdef''"

definition hex_of :: "string \<Rightarrow> string" where
  "hex_of s = concat (map (\<lambda>c. [hex_chars ! (of_char c div 16), hex_chars ! (of_char c mod 16)]) s)"

definition seconds :: "string \<Rightarrow> string + int" where
  "seconds v =
     (if v \<noteq> [] \<and> last v = CHR ''s'' then
        (case read_digits (butlast v) of
           None \<Rightarrow> Inl v
         | Some n \<Rightarrow> Inr (n * 1000000000))
      else Inl v)"

text \<open>The environment with the server \<open>srv\<close> and the data directory \<open>/data\<close>.\<close>

definition ipv4_env :: "(string \<Rightarrow> nat \<Rightarrow> http_result) \<Rightarrow> ipv4_prefix env" where
  "ipv4_env srv =
     \<lparr>NewRequestWithContext = (\<lambda>url. None),
      Do = srv,
      CIDRExpressionToPrefix = ipv4_of_string,
      Prefix_String = ipv4_to_string,
      AppDataDir = ''/data'',
      Sum256_hex = hex_of,
      filepath_Join = (\<lambda>dir name. dir @ ''/'' @ name),
      filepath_Dir = (\<lambda>path. rev (tl (dropWhile (\<lambda>c. c \<noteq> CHR ''/'') (rev path)))),
      json_Encode = encode_contents,
      json_Decode = decode_contents,
      ParseDuration = seconds,
      Sscanf_d = scan_int\<rparr>"

text \<open>A world in which nothing has happened yet: no request, no file, no fault.\<close>

definition world0 :: world where
  "world0 =
     \<lparr>requests = (\<lambda>url. 0), now = 0, files = Map.empty, io_fault = (\<lambda>op. None), log = [],
      refresh_loops = 0\<rparr>"

text \<open>
  The server of \<open>TestRetriesProvision\<close>: the first two requests get HTTP 500, every later
  one the list \<open>192.0.2.1/32\<close>; and the server of \<open>TestRetriesProvisionAllFail\<close>.
\<close>

definition srv_fail_twice :: "string \<Rightarrow> nat \<Rightarrow> http_result" where
  "srv_fail_twice url cnt =
     (if cnt < 2 then Responds 500 ''fail'' None
      else Responds 200 ''192.0.2.1/32\<newline>'' None)"

definition srv_all_fail :: "string \<Rightarrow> nat \<Rightarrow> http_result" where
  "srv_all_fail url cnt = Responds 500 ''fail'' None"

text \<open>
  A server whose first response has a line too long for the scanner, and one whose
  second response has a line that is no CIDR expression.
\<close>

definition srv_long_line :: "string \<Rightarrow> nat \<Rightarrow> http_result" where
  "srv_long_line url cnt =
     (if cnt = 0 then Responds 200 [] (Some ''bufio.Scanner: token too long'')
      else Responds 200 ''192.0.2.1/32\<newline>'' None)"

definition srv_malformed :: "string \<Rightarrow> nat \<Rightarrow> http_result" where
  "srv_malformed url cnt =
     (if cnt = 0 then Responds 503 [] None
      else Responds 200 ''192.0.2.1/32\<newline>not a prefix\<newline>'' None)"

text \<open>
  A server that always answers with the list \<open>192.0.2.1/32\<close>; a module configured with
  one URL and two retries; a world whose cache file for that module was written at time
  \<open>0\<close> while the clock shows a time more than fifty years later; and a list of two
  prefixes.
\<close>

definition srv_ok :: "string \<Rightarrow> nat \<Rightarrow> http_result" where
  "srv_ok url cnt = Responds 200 ''192.0.2.1/32\<newline>'' None"

definition listed :: "ipv4_prefix URLIPRange" where
  "listed = URLIPRange_zero\<lparr>URLs := [''http://list''], Retries := 2\<rparr>"

definition stale_world :: world where
  "stale_world =
     world0\<lparr>now := 1700000000,
            files := [''/data/ip-list-cache-687474703a2f2f6c697374.json'' \<mapsto>
              encode_contents \<lparr>Prefixes = [''10.0.0.0/8''], UpdatedAt = 0\<rparr>]\<rparr>"

definition two_prefixes :: "ipv4_prefix list" where
  "two_prefixes = [IPv4Prefix 10 0 0 0 8, IPv4Prefix 192 0 2 1 32]"

section \<open>Notions of the statements\<close>

text \<open>
  An outcome of \<open>http.DefaultClient.Do\<close> is a retryable failure when it is a transport
  error or a status outside 200 to 299; \<open>failure_error\<close> is the \<open>lastErr\<close> it leaves. A
  response is successful with the prefixes \<open>P\<close> when its status is in 200 to 299, every
  line of its body is skipped or converted, the converted ones being \<open>P\<close>, and the
  scanner reports no error. \<open>first_malformed\<close> is the error of the first line that does
  not convert. A response is a scanner failure when its status is in 200 to 299, no line
  is malformed and the scanner reports an error.
\<close>

definition retryable_failure :: "http_result \<Rightarrow> bool" where
  "retryable_failure r =
     (case r of DoFails err \<Rightarrow> True | Responds status body scanErr \<Rightarrow> status < 200 \<or> status > 299)"

definition failure_error :: "string \<Rightarrow> http_result \<Rightarrow> error" where
  "failure_error api r =
     (case r of DoFails err \<Rightarrow> DoError err | Responds status body scanErr \<Rightarrow> HTTPStatusError api status)"

definition successful_response :: "(string \<Rightarrow> string + 'p) \<Rightarrow> http_result \<Rightarrow> 'p list \<Rightarrow> bool" where
  "successful_response cidr r P =
     (case r of
        DoFails err \<Rightarrow> False
      | Responds status body scanErr \<Rightarrow>
          200 \<le> status \<and> status \<le> 299 \<and> scanErr = None \<and>
          scan_loop cidr (ScanLines body) [] = Inr P)"

fun first_malformed :: "(string \<Rightarrow> string + 'p) \<Rightarrow> string list \<Rightarrow> string option" where
  "first_malformed cidr [] = None"
| "first_malformed cidr (l # ls) =
     (case parse_line cidr l of
        Failed err \<Rightarrow> Some err
      | _ \<Rightarrow> first_malformed cidr ls)"

definition malformed_response :: "(string \<Rightarrow> string + 'p) \<Rightarrow> http_result \<Rightarrow> string \<Rightarrow> bool" where
  "malformed_response cidr r err =
     (case r of
        DoFails msg \<Rightarrow> False
      | Responds status body scanErr \<Rightarrow>
          200 \<le> status \<and> status \<le> 299 \<and> first_malformed cidr (ScanLines body) = Some err)"

definition scanner_failure :: "(string \<Rightarrow> string + 'p) \<Rightarrow> http_result \<Rightarrow> bool" where
  "scanner_failure cidr r =
     (case r of
        DoFails msg \<Rightarrow> False
      | Responds status body scanErr \<Rightarrow>
          200 \<le> status \<and> status \<le> 299 \<and> first_malformed cidr (ScanLines body) = None \<and>
          scanErr \<noteq> None)"

definition is_prefix :: "string \<Rightarrow> string \<Rightarrow> bool" where
  "is_prefix p s = (take (length p) s = p)"

definition is_suffix :: "string \<Rightarrow> string \<Rightarrow> bool" where
  "is_suffix p s = (is_prefix (rev p) (rev s))"

text \<open>
  A URL is plain when it is not empty and has no \<open>|\<close>. \<open>cache_name\<close> is the file name
  \<open>cachePath\<close> derives from a URL list and \<open>data_dir\<close> the directory it puts it in.
\<close>

definition plain_url :: "string \<Rightarrow> bool" where
  "plain_url u = (u \<noteq> [] \<and> CHR ''|'' \<notin> set u)"

definition cache_name :: "'p env \<Rightarrow> string list \<Rightarrow> string" where
  "cache_name e urls = ''ip-list-cache-'' @ Sum256_hex e (strings_Join urls ''|'') @ ''.json''"

definition data_dir :: "'p env \<Rightarrow> string" where
  "data_dir e = (if AppDataDir e = [] then ''.'' else AppDataDir e)"

section \<open>The retry loop of fetch\<close>

lemma scan_loop_first_malformed:
  "scan_loop cidr ls acc = Inl err \<longleftrightarrow> first_malformed cidr ls = Some err"
  by (induction ls arbitrary: acc) (auto split: line_result.splits)

lemma scan_loop_no_malformed:
  "(\<exists>P. scan_loop cidr ls acc = Inr P) \<longleftrightarrow> first_malformed cidr ls = None"
  by (induction ls arbitrary: acc) (auto split: line_result.splits)

lemma first_malformed_iff:
  "first_malformed cidr ls \<noteq> None \<longleftrightarrow> (\<exists>l \<in> set ls. \<exists>err. parse_line cidr l = Failed err)"
  by (induction ls) (auto split: line_result.splits)

lemma outcome_retryable:
  "retryable_failure r \<Longrightarrow> attempt_outcome cidr api r = Retry (failure_error api r)"
  by (auto simp: attempt_outcome_def retryable_failure_def failure_error_def
      split: http_result.splits)

lemma outcome_successful:
  "successful_response cidr r P \<Longrightarrow> attempt_outcome cidr api r = Return (Inr P)"
  by (auto simp: attempt_outcome_def successful_response_def split: http_result.splits)

lemma outcome_malformed:
  "attempt_outcome cidr api r = Return (Inl (CIDRError err))" if "malformed_response cidr r err"
proof (cases r)
  case (DoFails msg)
  then show ?thesis using that by (simp add: malformed_response_def)
next
  case (Responds status body scanErr)
  with that have "200 \<le> status" "status \<le> 299"
    and "scan_loop cidr (ScanLines body) [] = Inl err"
    by (simp_all add: malformed_response_def scan_loop_first_malformed)
  with Responds show ?thesis by (simp add: attempt_outcome_def)
qed

lemma outcome_Retry_iff:
  "(\<exists>err. attempt_outcome cidr api r = Retry err) \<longleftrightarrow>
     retryable_failure r \<or> scanner_failure cidr r"
proof (cases r)
  case (DoFails msg)
  then show ?thesis by (simp add: attempt_outcome_def retryable_failure_def)
next
  case (Responds status body scanErr)
  show ?thesis
  proof (cases "scan_loop cidr (ScanLines body) []")
    case (Inl err)
    then have "first_malformed cidr (ScanLines body) = Some err"
      by (simp add: scan_loop_first_malformed)
    with Inl Responds show ?thesis
      by (auto simp: attempt_outcome_def retryable_failure_def scanner_failure_def)
  next
    case (Inr P)
    then have "first_malformed cidr (ScanLines body) = None"
      using scan_loop_no_malformed [of cidr "ScanLines body" "[]"] by auto
    with Inr Responds show ?thesis
      by (auto simp: attempt_outcome_def retryable_failure_def scanner_failure_def
          split: option.splits)
  qed
qed

lemma attempt_once_requests:
  "requests (snd (attempt_once e api w)) api \<le> Suc (requests w api)"
  by (auto simp: attempt_once_def split: option.splits)

lemma attempt_once_frame:
  "files (snd (attempt_once e api w)) = files w \<and>
   io_fault (snd (attempt_once e api w)) = io_fault w \<and>
   log (snd (attempt_once e api w)) = log w \<and>
   refresh_loops (snd (attempt_once e api w)) = refresh_loops w"
  by (auto simp: attempt_once_def split: option.splits)

lemma fetch_loop_bound:
  "requests (snd (fetch_loop e s api attempt lastErr w)) api
     \<le> requests w api + nat (Retries s + 1 - attempt)"
proof (induction e s api attempt lastErr w rule: fetch_loop.induct)
  case (1 e s api attempt lastErr w)
  show ?case
  proof (cases "attempt \<le> Retries s")
    case False
    then show ?thesis by (simp add: fetch_loop.simps [of e s api attempt])
  next
    case True
    obtain r w1 where a: "attempt_once e api w = (r, w1)" by (cases "attempt_once e api w")
    have b: "requests w1 api \<le> Suc (requests w api)"
      using attempt_once_requests [of e api w] a by simp
    show ?thesis
    proof (cases r)
      case (Return x)
      with True a b show ?thesis by (simp add: fetch_loop.simps [of e s api attempt])
    next
      case (Break x)
      with True a b show ?thesis by (simp add: fetch_loop.simps [of e s api attempt])
    next
      case (Retry err)
      let ?w2 = "if attempt < Retries s then Sleep w1 else w1"
      have "requests (snd (fetch_loop e s api (attempt + 1) (Some err) ?w2)) api
          \<le> requests ?w2 api + nat (Retries s + 1 - (attempt + 1))"
        using "1.IH" [OF True a [symmetric] Retry] by simp
      moreover have "requests ?w2 api = requests w1 api" by (simp add: Sleep_def)
      ultimately show ?thesis
        using True a b Retry by (simp add: fetch_loop.simps [of e s api attempt])
    qed
  qed
qed

lemma fetch_loop_frame:
  "files (snd (fetch_loop e s api attempt lastErr w)) = files w \<and>
   io_fault (snd (fetch_loop e s api attempt lastErr w)) = io_fault w \<and>
   log (snd (fetch_loop e s api attempt lastErr w)) = log w \<and>
   refresh_loops (snd (fetch_loop e s api attempt lastErr w)) = refresh_loops w"
proof (induction e s api attempt lastErr w rule: fetch_loop.induct)
  case (1 e s api attempt lastErr w)
  show ?case
  proof (cases "attempt \<le> Retries s")
    case False
    then show ?thesis by (simp add: fetch_loop.simps [of e s api attempt])
  next
    case True
    obtain r w1 where a: "attempt_once e api w = (r, w1)" by (cases "attempt_once e api w")
    have b: "files w1 = files w \<and> io_fault w1 = io_fault w \<and> log w1 = log w \<and>
        refresh_loops w1 = refresh_loops w"
      using attempt_once_frame [of e api w] a by simp
    show ?thesis
    proof (cases r)
      case (Return x)
      with True a b show ?thesis by (simp add: fetch_loop.simps [of e s api attempt])
    next
      case (Break x)
      with True a b show ?thesis by (simp add: fetch_loop.simps [of e s api attempt])
    next
      case (Retry err)
      let ?w2 = "if attempt < Retries s then Sleep w1 else w1"
      have c: "files ?w2 = files w1 \<and> io_fault ?w2 = io_fault w1 \<and> log ?w2 = log w1 \<and>
        refresh_loops ?w2 = refresh_loops w1" by (simp add: Sleep_def)
      show ?thesis
        using "1.IH" [OF True a [symmetric] Retry] True a b c Retry
        by (simp add: fetch_loop.simps [of e s api attempt])
    qed
  qed
qed

lemma fetch_loop_returns:
  assumes nr: "NewRequestWithContext e api = None"
  shows "attempt + int k \<le> Retries s \<Longrightarrow>
    (\<forall>i<k. \<exists>err. attempt_outcome (CIDRExpressionToPrefix e) api
        (Do e api (requests w api + i)) = Retry err) \<Longrightarrow>
    attempt_outcome (CIDRExpressionToPrefix e) api (Do e api (requests w api + k)) = Return r \<Longrightarrow>
    fst (fetch_loop e s api attempt lastErr w) = r \<and>
    requests (snd (fetch_loop e s api attempt lastErr w)) api = requests w api + k + 1"
proof (induction k arbitrary: attempt lastErr w)
  case 0
  then show ?case
    using nr by (simp add: fetch_loop.simps [of e s api attempt] attempt_once_def)
next
  case (Suc k)
  let ?w1 = "w\<lparr>requests := (requests w)(api := Suc (requests w api))\<rparr>"
  let ?w2 = "if attempt < Retries s then Sleep ?w1 else ?w1"
  obtain err where r0: "attempt_outcome (CIDRExpressionToPrefix e) api
      (Do e api (requests w api)) = Retry err"
    using Suc.prems(2) by (metis add.right_neutral zero_less_Suc)
  have step: "fetch_loop e s api attempt lastErr w = fetch_loop e s api (attempt + 1) (Some err) ?w2"
    using Suc.prems(1) nr r0
    by (simp add: fetch_loop.simps [of e s api attempt] attempt_once_def)
  have rq: "requests ?w2 api = requests w api + 1" by (simp add: Sleep_def)
  have "fst (fetch_loop e s api (attempt + 1) (Some err) ?w2) = r \<and>
    requests (snd (fetch_loop e s api (attempt + 1) (Some err) ?w2)) api = requests ?w2 api + k + 1"
  proof (rule Suc.IH)
    show "attempt + 1 + int k \<le> Retries s" using Suc.prems(1) by simp
    show "\<forall>i<k. \<exists>err. attempt_outcome (CIDRExpressionToPrefix e) api
        (Do e api (requests ?w2 api + i)) = Retry err"
    proof (intro allI impI)
      fix i assume "i < k"
      then have "Suc i < Suc k" by simp
      then have "\<exists>err. attempt_outcome (CIDRExpressionToPrefix e) api
          (Do e api (requests w api + Suc i)) = Retry err"
        using Suc.prems(2) by blast
      then show "\<exists>err. attempt_outcome (CIDRExpressionToPrefix e) api
          (Do e api (requests ?w2 api + i)) = Retry err" by (simp add: rq)
    qed
    show "attempt_outcome (CIDRExpressionToPrefix e) api (Do e api (requests ?w2 api + k)) = Return r"
      using Suc.prems(3) by (simp add: rq)
  qed
  then show ?case by (simp only: step rq) simp
qed

lemma fetch_loop_exhausts:
  assumes nr: "NewRequestWithContext e api = None"
  shows "attempt + int k = Retries s \<Longrightarrow>
    (\<forall>i<k. \<exists>err. attempt_outcome (CIDRExpressionToPrefix e) api
        (Do e api (requests w api + i)) = Retry err) \<Longrightarrow>
    attempt_outcome (CIDRExpressionToPrefix e) api (Do e api (requests w api + k)) = Retry lerr \<Longrightarrow>
    fst (fetch_loop e s api attempt lastErr w) = Inl (AfterRetries (Retries s) (Some lerr)) \<and>
    requests (snd (fetch_loop e s api attempt lastErr w)) api = requests w api + k + 1"
proof (induction k arbitrary: attempt lastErr w)
  case 0
  then show ?case
    using nr
    by (simp add: fetch_loop.simps [of e s api "Retries s"]
        fetch_loop.simps [of e s api "Retries s + 1"] attempt_once_def)
next
  case (Suc k)
  let ?w1 = "w\<lparr>requests := (requests w)(api := Suc (requests w api))\<rparr>"
  let ?w2 = "if attempt < Retries s then Sleep ?w1 else ?w1"
  obtain err where r0: "attempt_outcome (CIDRExpressionToPrefix e) api
      (Do e api (requests w api)) = Retry err"
    using Suc.prems(2) by (metis add.right_neutral zero_less_Suc)
  have step: "fetch_loop e s api attempt lastErr w = fetch_loop e s api (attempt + 1) (Some err) ?w2"
    using Suc.prems(1) nr r0
    by (simp add: fetch_loop.simps [of e s api attempt] attempt_once_def)
  have rq: "requests ?w2 api = requests w api + 1" by (simp add: Sleep_def)
  have "fst (fetch_loop e s api (attempt + 1) (Some err) ?w2)
      = Inl (AfterRetries (Retries s) (Some lerr)) \<and>
    requests (snd (fetch_loop e s api (attempt + 1) (Some err) ?w2)) api = requests ?w2 api + k + 1"
  proof (rule Suc.IH)
    show "attempt + 1 + int k = Retries s" using Suc.prems(1) by simp
    show "\<forall>i<k. \<exists>err. attempt_outcome (CIDRExpressionToPrefix e) api
        (Do e api (requests ?w2 api + i)) = Retry err"
    proof (intro allI impI)
      fix i assume "i < k"
      then have "Suc i < Suc k" by simp
      then have "\<exists>err. attempt_outcome (CIDRExpressionToPrefix e) api
          (Do e api (requests w api + Suc i)) = Retry err"
        using Suc.prems(2) by blast
      then show "\<exists>err. attempt_outcome (CIDRExpressionToPrefix e) api
          (Do e api (requests ?w2 api + i)) = Retry err" by (simp add: rq)
    qed
    show "attempt_outcome (CIDRExpressionToPrefix e) api (Do e api (requests ?w2 api + k)) = Retry lerr"
      using Suc.prems(3) by (simp add: rq)
  qed
  then show ?case by (simp only: step rq) simp
qed

lemma fetch_loop_next_attempt:
  "requests w api + Suc i < requests (snd (fetch_loop e s api attempt lastErr w)) api \<Longrightarrow>
   \<exists>err. attempt_outcome (CIDRExpressionToPrefix e) api (Do e api (requests w api + i)) = Retry err"
proof (induction e s api attempt lastErr w arbitrary: i rule: fetch_loop.induct)
  case (1 e s api attempt lastErr w)
  show ?case
  proof (cases "attempt \<le> Retries s")
    case False
    with "1.prems" show ?thesis by (simp add: fetch_loop.simps [of e s api attempt])
  next
    case True
    obtain r w1 where a: "attempt_once e api w = (r, w1)" by (cases "attempt_once e api w")
    have b: "requests w1 api \<le> Suc (requests w api)"
      using attempt_once_requests [of e api w] a by simp
    show ?thesis
    proof (cases r)
      case (Return x)
      with True a b "1.prems" show ?thesis by (simp add: fetch_loop.simps [of e s api attempt])
    next
      case (Break x)
      with True a b "1.prems" show ?thesis by (simp add: fetch_loop.simps [of e s api attempt])
    next
      case (Retry err)
      let ?w2 = "if attempt < Retries s then Sleep w1 else w1"
      have nr: "NewRequestWithContext e api = None"
        using a Retry by (auto simp: attempt_once_def split: option.splits)
      have o: "attempt_outcome (CIDRExpressionToPrefix e) api (Do e api (requests w api)) = Retry err"
        and w1: "requests w1 api = Suc (requests w api)"
        using a Retry nr by (auto simp: attempt_once_def)
      have rq: "requests ?w2 api = Suc (requests w api)" using w1 by (simp add: Sleep_def)
      have f: "fetch_loop e s api attempt lastErr w = fetch_loop e s api (attempt + 1) (Some err) ?w2"
        using True a Retry by (simp add: fetch_loop.simps [of e s api attempt])
      show ?thesis
      proof (cases i)
        case 0
        with o show ?thesis by simp
      next
        case (Suc j)
        have "requests ?w2 api + Suc j < requests (snd (fetch_loop e s api (attempt + 1) (Some err) ?w2)) api"
          using "1.prems" Suc unfolding f rq by simp
        then have "\<exists>err. attempt_outcome (CIDRExpressionToPrefix e) api
            (Do e api (requests ?w2 api + j)) = Retry err"
          by (rule "1.IH" [OF True a [symmetric] Retry])
        then show ?thesis by (simp add: rq Suc)
      qed
    qed
  qed
qed

text \<open>
  C1, as stated, has the error after the last attempt name the attempt count, for every
  number of retries. Against a server that always answers HTTP 500, \<open>Retries = 2\<close>
  makes three attempts and the error names \<open>2\<close>, the number of retries, not \<open>3\<close>. And
  with \<open>Retries = - 2\<close>, which the JSON configuration can give (only \<open>UnmarshalCaddyfile\<close>
  rejects it), \<open>fetch\<close> makes no attempt, not \<open>Retries + 1\<close>, and the error wraps no
  error at all.
\<close>

theorem fetch_error_names_retries_counterexample:
  "fst (fetch (ipv4_env srv_all_fail) (URLIPRange_zero\<lparr>Retries := 2\<rparr>) ''http://list'' world0)
     = Inl (AfterRetries 2 (Some (HTTPStatusError ''http://list'' 500)))
   \<and> requests (snd (fetch (ipv4_env srv_all_fail) (URLIPRange_zero\<lparr>Retries := 2\<rparr>)
        ''http://list'' world0)) ''http://list'' = 3
   \<and> fst (fetch (ipv4_env srv_all_fail) (URLIPRange_zero\<lparr>Retries := 2\<rparr>) ''http://list'' world0)
     \<noteq> Inl (AfterRetries 3 (Some (HTTPStatusError ''http://list'' 500)))
   \<and> fst (fetch (ipv4_env srv_all_fail) (URLIPRange_zero\<lparr>Retries := - 2\<rparr>) ''http://list'' world0)
     = Inl (AfterRetries (- 2) None)
   \<and> requests (snd (fetch (ipv4_env srv_all_fail) (URLIPRange_zero\<lparr>Retries := - 2\<rparr>)
        ''http://list'' world0)) ''http://list'' = 0"
  by code_simp

text \<open>
  C1, amended. \<open>fetch\<close> calls \<open>http.DefaultClient.Do\<close> at most \<open>Retries + 1\<close> times. When
  the request can be built, the first \<open>k \<le> Retries\<close> outcomes are retryable failures and
  the next one is a successful response, \<open>fetch\<close> makes exactly \<open>k + 1\<close> attempts and
  returns the prefixes of that response. When \<open>Retries \<ge> 0\<close> and the first
  \<open>Retries + 1\<close> outcomes are retryable failures, \<open>fetch\<close> makes exactly \<open>Retries + 1\<close>
  attempts and returns the error \<open>after Retries retries\<close> that wraps the error of the
  last attempt: the count it names is the number of retries, one less than the number
  of attempts.
\<close>

theorem fetch_retry_attempts:
  "requests (snd (fetch e s api w)) api \<le> requests w api + nat (Retries s + 1)
   \<and> (NewRequestWithContext e api = None \<and> int k \<le> Retries s
        \<and> (\<forall>i<k. retryable_failure (Do e api (requests w api + i)))
        \<and> successful_response (CIDRExpressionToPrefix e) (Do e api (requests w api + k)) P
      \<longrightarrow> fst (fetch e s api w) = Inr P
          \<and> requests (snd (fetch e s api w)) api = requests w api + k + 1)
   \<and> (NewRequestWithContext e api = None \<and> 0 \<le> Retries s
        \<and> (\<forall>i\<le>nat (Retries s). retryable_failure (Do e api (requests w api + i)))
      \<longrightarrow> fst (fetch e s api w) =
            Inl (AfterRetries (Retries s)
              (Some (failure_error api (Do e api (requests w api + nat (Retries s))))))
          \<and> requests (snd (fetch e s api w)) api = requests w api + nat (Retries s) + 1)"
proof (intro conjI impI)
  show "requests (snd (fetch e s api w)) api \<le> requests w api + nat (Retries s + 1)"
    using fetch_loop_bound [of e s api 0 None w] by (simp add: fetch_def)
next
  assume h: "NewRequestWithContext e api = None \<and> int k \<le> Retries s
        \<and> (\<forall>i<k. retryable_failure (Do e api (requests w api + i)))
        \<and> successful_response (CIDRExpressionToPrefix e) (Do e api (requests w api + k)) P"
  have "fst (fetch_loop e s api 0 None w) = Inr P \<and>
    requests (snd (fetch_loop e s api 0 None w)) api = requests w api + k + 1"
  proof (rule fetch_loop_returns)
    show "NewRequestWithContext e api = None" using h by simp
    show "0 + int k \<le> Retries s" using h by simp
    show "\<forall>i<k. \<exists>err. attempt_outcome (CIDRExpressionToPrefix e) api
        (Do e api (requests w api + i)) = Retry err"
      using h outcome_retryable by blast
    show "attempt_outcome (CIDRExpressionToPrefix e) api (Do e api (requests w api + k))
        = Return (Inr P)"
      using h outcome_successful by blast
  qed
  then show "fst (fetch e s api w) = Inr P"
    and "requests (snd (fetch e s api w)) api = requests w api + k + 1"
    by (simp_all add: fetch_def)
next
  assume h: "NewRequestWithContext e api = None \<and> 0 \<le> Retries s
        \<and> (\<forall>i\<le>nat (Retries s). retryable_failure (Do e api (requests w api + i)))"
  have "fst (fetch_loop e s api 0 None w) =
      Inl (AfterRetries (Retries s)
        (Some (failure_error api (Do e api (requests w api + nat (Retries s)))))) \<and>
    requests (snd (fetch_loop e s api 0 None w)) api = requests w api + nat (Retries s) + 1"
  proof (rule fetch_loop_exhausts)
    show "NewRequestWithContext e api = None" using h by simp
    show "0 + int (nat (Retries s)) = Retries s" using h by simp
    show "\<forall>i<nat (Retries s). \<exists>err. attempt_outcome (CIDRExpressionToPrefix e) api
        (Do e api (requests w api + i)) = Retry err"
      using h outcome_retryable by (metis less_imp_le_nat)
    show "attempt_outcome (CIDRExpressionToPrefix e) api
        (Do e api (requests w api + nat (Retries s)))
        = Retry (failure_error api (Do e api (requests w api + nat (Retries s))))"
      using h outcome_retryable by blast
  qed
  then show "fst (fetch e s api w) =
            Inl (AfterRetries (Retries s)
              (Some (failure_error api (Do e api (requests w api + nat (Retries s))))))"
    and "requests (snd (fetch e s api w)) api = requests w api + nat (Retries s) + 1"
    by (simp_all add: fetch_def)
qed

theorem fetch_retry_attempts_witness:
  "fst (fetch (ipv4_env srv_fail_twice) (URLIPRange_zero\<lparr>Retries := 2\<rparr>) ''http://list'' world0)
     = Inr [IPv4Prefix 192 0 2 1 32]
   \<and> requests (snd (fetch (ipv4_env srv_fail_twice) (URLIPRange_zero\<lparr>Retries := 2\<rparr>)
        ''http://list'' world0)) ''http://list'' = 3
   \<and> fst (fetch (ipv4_env srv_all_fail) (URLIPRange_zero\<lparr>Retries := 2\<rparr>) ''http://list'' world0)
     = Inl (AfterRetries 2 (Some (HTTPStatusError ''http://list'' 500)))
   \<and> requests (snd (fetch (ipv4_env srv_all_fail) (URLIPRange_zero\<lparr>Retries := 2\<rparr>)
        ''http://list'' world0)) ''http://list'' = 3"
proof -
  let ?s = "URLIPRange_zero\<lparr>Retries := 2\<rparr> :: ipv4_prefix URLIPRange"
  have body: "scan_loop ipv4_of_string (ScanLines ''192.0.2.1/32\<newline>'') []
      = Inr [IPv4Prefix 192 0 2 1 32]"
    by code_simp
  have a: "NewRequestWithContext (ipv4_env srv_fail_twice) ''http://list'' = None
      \<and> int 2 \<le> Retries ?s
      \<and> (\<forall>i<2. retryable_failure
            (Do (ipv4_env srv_fail_twice) ''http://list'' (requests world0 ''http://list'' + i)))
      \<and> successful_response (CIDRExpressionToPrefix (ipv4_env srv_fail_twice))
            (Do (ipv4_env srv_fail_twice) ''http://list'' (requests world0 ''http://list'' + 2))
            [IPv4Prefix 192 0 2 1 32]"
    by (simp add: ipv4_env_def URLIPRange_zero_def world0_def srv_fail_twice_def
        retryable_failure_def successful_response_def body)
  have b: "NewRequestWithContext (ipv4_env srv_all_fail) ''http://list'' = None
      \<and> 0 \<le> Retries ?s
      \<and> (\<forall>i\<le>nat (Retries ?s). retryable_failure
            (Do (ipv4_env srv_all_fail) ''http://list'' (requests world0 ''http://list'' + i)))"
    by (simp add: ipv4_env_def URLIPRange_zero_def srv_all_fail_def retryable_failure_def)
  show ?thesis
    using fetch_retry_attempts [of "ipv4_env srv_fail_twice" ?s "''http://list''" world0 2
        "[IPv4Prefix 192 0 2 1 32]"] a
      fetch_retry_attempts [of "ipv4_env srv_all_fail" ?s "''http://list''" world0 0 "[]"] b
    by (simp add: ipv4_env_def URLIPRange_zero_def world0_def srv_all_fail_def failure_error_def)
qed

text \<open>
  C3, as stated, lets only transport failures and statuses outside 200 to 299 use up the
  retry budget. A response with status 200 whose scanner ends with an error (here a
  line too long for its buffer) is neither, has no malformed line, and is retried: with
  \<open>Retries = 1\<close> the second request is made.
\<close>

theorem fetch_scanner_error_counterexample:
  "\<not> retryable_failure (Do (ipv4_env srv_long_line) ''http://list'' 0)
   \<and> first_malformed ipv4_of_string [] = None
   \<and> Do (ipv4_env srv_long_line) ''http://list'' 0
       = Responds 200 [] (Some ''bufio.Scanner: token too long'')
   \<and> requests (snd (fetch (ipv4_env srv_long_line) (URLIPRange_zero\<lparr>Retries := 1\<rparr>)
        ''http://list'' world0)) ''http://list'' = 2"
  by code_simp

text \<open>
  C3, amended. When the attempts before attempt \<open>k \<le> Retries\<close> were retried and the
  response of attempt \<open>k\<close> has a status in 200 to 299 and a body among whose scanned
  lines one is malformed, \<open>fetch\<close> returns the error of the first such line and makes
  no further attempt, however many retries remain. An attempt is followed by another
  one only when its outcome is a transport failure, a status outside 200 to 299, or a
  scanner error after a body without malformed line.
\<close>

theorem fetch_parse_error_not_retried:
  "(NewRequestWithContext e api = None \<and> int k \<le> Retries s
      \<and> (\<forall>i<k. retryable_failure (Do e api (requests w api + i))
              \<or> scanner_failure (CIDRExpressionToPrefix e) (Do e api (requests w api + i)))
      \<and> Do e api (requests w api + k) = Responds status body scanErr
      \<and> 200 \<le> status \<and> status \<le> 299
      \<and> (\<exists>l \<in> set (ScanLines body). \<exists>msg. parse_line (CIDRExpressionToPrefix e) l = Failed msg)
    \<longrightarrow> (\<exists>err. first_malformed (CIDRExpressionToPrefix e) (ScanLines body) = Some err
          \<and> fst (fetch e s api w) = Inl (CIDRError err))
        \<and> requests (snd (fetch e s api w)) api = requests w api + k + 1)
   \<and> (requests w api + Suc i < requests (snd (fetch e s api w)) api
    \<longrightarrow> retryable_failure (Do e api (requests w api + i))
        \<or> scanner_failure (CIDRExpressionToPrefix e) (Do e api (requests w api + i)))"
proof (intro conjI impI)
  assume h: "NewRequestWithContext e api = None \<and> int k \<le> Retries s
      \<and> (\<forall>i<k. retryable_failure (Do e api (requests w api + i))
              \<or> scanner_failure (CIDRExpressionToPrefix e) (Do e api (requests w api + i)))
      \<and> Do e api (requests w api + k) = Responds status body scanErr
      \<and> 200 \<le> status \<and> status \<le> 299
      \<and> (\<exists>l \<in> set (ScanLines body). \<exists>msg. parse_line (CIDRExpressionToPrefix e) l = Failed msg)"
  then obtain err where err: "first_malformed (CIDRExpressionToPrefix e) (ScanLines body) = Some err"
    using first_malformed_iff [of "CIDRExpressionToPrefix e" "ScanLines body"] by auto
  have m: "malformed_response (CIDRExpressionToPrefix e) (Do e api (requests w api + k)) err"
    using h err by (simp add: malformed_response_def)
  have "fst (fetch_loop e s api 0 None w) = Inl (CIDRError err) \<and>
    requests (snd (fetch_loop e s api 0 None w)) api = requests w api + k + 1"
  proof (rule fetch_loop_returns)
    show "NewRequestWithContext e api = None" using h by simp
    show "0 + int k \<le> Retries s" using h by simp
    show "\<forall>i<k. \<exists>err. attempt_outcome (CIDRExpressionToPrefix e) api
        (Do e api (requests w api + i)) = Retry err"
      using h by (simp add: outcome_Retry_iff)
    show "attempt_outcome (CIDRExpressionToPrefix e) api (Do e api (requests w api + k))
        = Return (Inl (CIDRError err))"
      using m by (rule outcome_malformed)
  qed
  then show "\<exists>err. first_malformed (CIDRExpressionToPrefix e) (ScanLines body) = Some err
          \<and> fst (fetch e s api w) = Inl (CIDRError err)"
    and "requests (snd (fetch e s api w)) api = requests w api + k + 1"
    using err by (simp_all add: fetch_def)
next
  assume "requests w api + Suc i < requests (snd (fetch e s api w)) api"
  then have "\<exists>err. attempt_outcome (CIDRExpressionToPrefix e) api
      (Do e api (requests w api + i)) = Retry err"
    unfolding fetch_def by (rule fetch_loop_next_attempt)
  then show "retryable_failure (Do e api (requests w api + i))
        \<or> scanner_failure (CIDRExpressionToPrefix e) (Do e api (requests w api + i))"
    by (simp add: outcome_Retry_iff)
qed

theorem fetch_parse_error_not_retried_witness:
  "fst (fetch (ipv4_env srv_malformed) (URLIPRange_zero\<lparr>Retries := 5\<rparr>) ''http://list'' world0)
     = Inl (CIDRError ''not a prefix'')
   \<and> requests (snd (fetch (ipv4_env srv_malformed) (URLIPRange_zero\<lparr>Retries := 5\<rparr>)
        ''http://list'' world0)) ''http://list'' = 2
   \<and> scanner_failure ipv4_of_string (Do (ipv4_env srv_long_line) ''http://list'' 0)"
proof -
  let ?s = "URLIPRange_zero\<lparr>Retries := 5\<rparr> :: ipv4_prefix URLIPRange"
  let ?e = "ipv4_env srv_malformed"
  have fm: "first_malformed ipv4_of_string (ScanLines ''192.0.2.1/32\<newline>not a prefix\<newline>'')
      = Some ''not a prefix''"
    by code_simp
  have ex: "\<exists>l \<in> set (ScanLines ''192.0.2.1/32\<newline>not a prefix\<newline>''). \<exists>msg.
      parse_line ipv4_of_string l = Failed msg"
    using first_malformed_iff [of ipv4_of_string "ScanLines ''192.0.2.1/32\<newline>not a prefix\<newline>''"] fm
    by simp
  have a: "NewRequestWithContext ?e ''http://list'' = None \<and> int 1 \<le> Retries ?s
      \<and> (\<forall>i<1. retryable_failure (Do ?e ''http://list'' (requests world0 ''http://list'' + i))
              \<or> scanner_failure (CIDRExpressionToPrefix ?e)
                  (Do ?e ''http://list'' (requests world0 ''http://list'' + i)))
      \<and> Do ?e ''http://list'' (requests world0 ''http://list'' + 1)
          = Responds 200 ''192.0.2.1/32\<newline>not a prefix\<newline>'' None
      \<and> (200::int) \<le> 200 \<and> (200::int) \<le> 299
      \<and> (\<exists>l \<in> set (ScanLines ''192.0.2.1/32\<newline>not a prefix\<newline>''). \<exists>msg.
            parse_line (CIDRExpressionToPrefix ?e) l = Failed msg)"
    using ex
    by (simp add: ipv4_env_def URLIPRange_zero_def world0_def srv_malformed_def
        retryable_failure_def)
  have q: "requests (snd (fetch (ipv4_env srv_long_line) (URLIPRange_zero\<lparr>Retries := 1\<rparr>)
        ''http://list'' world0)) ''http://list'' = 2"
    by code_simp
  have b: "requests world0 ''http://list'' + Suc 0
      < requests (snd (fetch (ipv4_env srv_long_line) (URLIPRange_zero\<lparr>Retries := 1\<rparr>)
          ''http://list'' world0)) ''http://list''"
    unfolding q by (simp add: world0_def)
  have nr: "\<not> retryable_failure (Do (ipv4_env srv_long_line) ''http://list'' 0)"
    by code_simp
  have c1: "(\<exists>err. first_malformed ipv4_of_string (ScanLines ''192.0.2.1/32\<newline>not a prefix\<newline>'') = Some err
          \<and> fst (fetch ?e ?s ''http://list'' world0) = Inl (CIDRError err))
        \<and> requests (snd (fetch ?e ?s ''http://list'' world0)) ''http://list''
            = requests world0 ''http://list'' + 1 + 1"
    using fetch_parse_error_not_retried [of ?e "''http://list''" 1 ?s world0 200
        "''192.0.2.1/32\<newline>not a prefix\<newline>''" None 0, THEN conjunct1] a
    by (simp add: ipv4_env_def)
  have c2: "retryable_failure (Do (ipv4_env srv_long_line) ''http://list'' 0)
        \<or> scanner_failure ipv4_of_string (Do (ipv4_env srv_long_line) ''http://list'' 0)"
    using fetch_parse_error_not_retried [of "ipv4_env srv_long_line" "''http://list''" 0
        "URLIPRange_zero\<lparr>Retries := 1\<rparr>" world0 200 "[]" None 0, THEN conjunct2] b
    by (simp add: ipv4_env_def world0_def)
  show ?thesis using c1 c2 nr fm by (simp add: world0_def)
qed

section \<open>The line parser\<close>

lemma strip_leading_runes:
  "\<exists>qs. set qs \<subseteq> set ps \<and> s = concat qs @ strip_leading ps s"
proof (induction ps s rule: strip_leading.induct)
  case (1 ps s)
  show ?case
  proof (cases "find (\<lambda>p. p \<noteq> [] \<and> take (length p) s = p) ps")
    case None
    then have "strip_leading ps s = s" by (simp add: strip_leading.simps [of ps s])
    then have "set [] \<subseteq> set ps \<and> s = concat [] @ strip_leading ps s" by simp
    then show ?thesis by blast
  next
    case (Some p)
    then have p: "p \<in> set ps" "take (length p) s = p"
      by (auto simp: find_Some_iff)
    from "1.IH" [OF Some] obtain qs where qs: "set qs \<subseteq> set ps"
      "drop (length p) s = concat qs @ strip_leading ps (drop (length p) s)" by blast
    have "strip_leading ps s = strip_leading ps (drop (length p) s)"
      using Some by (simp add: strip_leading.simps [of ps s])
    moreover have "s = p @ drop (length p) s" using p(2) by (metis append_take_drop_id)
    ultimately have "set (p # qs) \<subseteq> set ps \<and> s = concat (p # qs) @ strip_leading ps s"
      using p(1) qs by simp
    then show ?thesis by blast
  qed
qed

lemma strip_leading_done:
  "p \<in> set ps \<Longrightarrow> p \<noteq> [] \<Longrightarrow> take (length p) (strip_leading ps s) \<noteq> p"
proof (induction ps s rule: strip_leading.induct)
  case (1 ps s)
  show ?case
  proof (cases "find (\<lambda>p. p \<noteq> [] \<and> take (length p) s = p) ps")
    case None
    then have "strip_leading ps s = s" by (simp add: strip_leading.simps [of ps s])
    moreover have "\<not> (p \<noteq> [] \<and> take (length p) s = p)"
      using None "1.prems"(1) by (auto simp: find_None_iff)
    ultimately show ?thesis using "1.prems"(2) by simp
  next
    case (Some q)
    have "strip_leading ps s = strip_leading ps (drop (length q) s)"
      using Some by (simp add: strip_leading.simps [of ps s])
    then show ?thesis using "1.IH" [OF Some "1.prems"] by simp
  qed
qed

lemma space_runes_nonempty: "p \<in> set space_runes \<Longrightarrow> p \<noteq> []"
  by (auto simp: space_runes_def asciiSpace_def)

lemma TrimSpace_spec:
  "\<exists>as bs. set as \<subseteq> set space_runes \<and> set bs \<subseteq> set space_runes \<and>
      s = concat as @ TrimSpace s @ concat bs \<and>
      (\<forall>p \<in> set space_runes. \<not> is_prefix p (TrimSpace s) \<and> \<not> is_suffix p (TrimSpace s))"
proof -
  let ?y = "strip_leading space_runes s"
  let ?z = "strip_leading (map rev space_runes) (rev ?y)"
  obtain as where as: "set as \<subseteq> set space_runes" "s = concat as @ ?y"
    using strip_leading_runes [of space_runes s] by blast
  obtain rs where rs: "set rs \<subseteq> set (map rev space_runes)" "rev ?y = concat rs @ ?z"
    using strip_leading_runes [of "map rev space_runes" "rev ?y"] by blast
  let ?bs = "rev (map rev rs)"
  have t: "TrimSpace s = rev ?z" by (simp add: TrimSpace_def)
  have bs: "set ?bs \<subseteq> set space_runes" using rs(1) by auto
  have "?y = rev (concat rs @ ?z)" using rs(2) by (metis rev_rev_ident)
  then have y: "?y = rev ?z @ concat ?bs" by (simp add: rev_concat rev_map)
  have dec: "s = concat as @ TrimSpace s @ concat ?bs" using as(2) y t by simp
  have no: "\<not> is_prefix p (TrimSpace s) \<and> \<not> is_suffix p (TrimSpace s)"
    if p: "p \<in> set space_runes" for p
  proof
    have ne: "p \<noteq> []" using p by (rule space_runes_nonempty)
    show "\<not> is_prefix p (TrimSpace s)"
    proof
      assume "is_prefix p (TrimSpace s)"
      then have "take (length p) (rev ?z) = p" by (simp add: is_prefix_def t)
      then have "take (length p) ?y = p"
        by (subst y) (metis append_eq_conv_conj append_assoc append_take_drop_id)
      then show False using strip_leading_done [OF p ne, of s] by simp
    qed
    show "\<not> is_suffix p (TrimSpace s)"
    proof
      assume "is_suffix p (TrimSpace s)"
      then have "take (length (rev p)) ?z = rev p" by (simp add: is_suffix_def is_prefix_def t)
      moreover have "rev p \<in> set (map rev space_runes)" using p by simp
      moreover have "rev p \<noteq> []" using ne by simp
      ultimately show False using strip_leading_done [of "rev p" "map rev space_runes" "rev ?y"] by blast
    qed
  qed
  show ?thesis using as(1) bs dec no by blast
qed

lemma strip_comment_first:
  "CHR ''#'' \<notin> set a \<Longrightarrow> strip_comment (a @ CHR ''#'' # b) = a \<and> strip_comment a = a"
  by (induction a) (auto simp: strip_comment_def)

lemma parse_line_comment:
  "CHR ''#'' \<notin> set a \<Longrightarrow> parse_line cidr (a @ CHR ''#'' # b) = parse_line cidr a"
  by (simp add: parse_line_def strip_comment_first)

lemma scenario_A_lines:
  "map (\<lambda>l. TrimSpace (strip_comment l)) (ScanLines ''10.0.0.0/8 # note\<newline>\<newline>172.16.0.0/12\<newline>'')
    = [''10.0.0.0/8'', [], ''172.16.0.0/12'']"
  by code_simp

text \<open>
  C8. The scan loop cuts a line at its first \<open>#\<close>; what it hands to the CIDR parser is
  the rest without the white space runes around it (the rest is that text between two
  runs of white space runes, and the text neither begins nor ends with one); an empty
  text is skipped and the loop goes on, a text the CIDR parser rejects ends the loop
  with that error, a text it accepts adds its prefix. The stream
  \<open>10.0.0.0/8 # note\<newline>\<newline>172.16.0.0/12\<newline>\<close> gives the prefixes of \<open>10.0.0.0/8\<close> and
  \<open>172.16.0.0/12\<close>, in this order.
\<close>

theorem line_parser_contract:
  "(CHR ''#'' \<notin> set a \<longrightarrow> parse_line cidr (a @ CHR ''#'' # b) = parse_line cidr a)
   \<and> (\<exists>as bs. set as \<subseteq> set space_runes \<and> set bs \<subseteq> set space_runes
         \<and> strip_comment l = concat as @ TrimSpace (strip_comment l) @ concat bs
         \<and> (\<forall>p \<in> set space_runes. \<not> is_prefix p (TrimSpace (strip_comment l))
               \<and> \<not> is_suffix p (TrimSpace (strip_comment l))))
   \<and> parse_line cidr l =
        (if TrimSpace (strip_comment l) = [] then Skipped
         else case cidr (TrimSpace (strip_comment l)) of
                Inl err \<Rightarrow> Failed err
              | Inr prefix \<Rightarrow> Parsed prefix)
   \<and> (parse_line cidr l = Skipped \<longrightarrow> scan_loop cidr (l # ls) prefixes = scan_loop cidr ls prefixes)
   \<and> (parse_line cidr l = Failed err \<longrightarrow> scan_loop cidr (l # ls) prefixes = Inl err)
   \<and> (parse_line cidr l = Parsed prefix \<longrightarrow>
        scan_loop cidr (l # ls) prefixes = scan_loop cidr ls (prefixes @ [prefix]))
   \<and> (cidr ''10.0.0.0/8'' = Inr p1 \<and> cidr ''172.16.0.0/12'' = Inr p2 \<longrightarrow>
        scan_loop cidr (ScanLines ''10.0.0.0/8 # note\<newline>\<newline>172.16.0.0/12\<newline>'') []
          = Inr [p1, p2])"
proof (intro conjI impI)
  show "parse_line cidr (a @ CHR ''#'' # b) = parse_line cidr a" if "CHR ''#'' \<notin> set a"
    using that by (rule parse_line_comment)
  show "\<exists>as bs. set as \<subseteq> set space_runes \<and> set bs \<subseteq> set space_runes
         \<and> strip_comment l = concat as @ TrimSpace (strip_comment l) @ concat bs
         \<and> (\<forall>p \<in> set space_runes. \<not> is_prefix p (TrimSpace (strip_comment l))
               \<and> \<not> is_suffix p (TrimSpace (strip_comment l)))"
    by (rule TrimSpace_spec)
  show "parse_line cidr l =
        (if TrimSpace (strip_comment l) = [] then Skipped
         else case cidr (TrimSpace (strip_comment l)) of
                Inl err \<Rightarrow> Failed err
              | Inr prefix \<Rightarrow> Parsed prefix)"
    by (simp add: parse_line_def)
  show "scan_loop cidr (l # ls) prefixes = scan_loop cidr ls prefixes" if "parse_line cidr l = Skipped"
    using that by simp
  show "scan_loop cidr (l # ls) prefixes = Inl err" if "parse_line cidr l = Failed err"
    using that by simp
  show "scan_loop cidr (l # ls) prefixes = scan_loop cidr ls (prefixes @ [prefix])"
    if "parse_line cidr l = Parsed prefix"
    using that by simp
  show "scan_loop cidr (ScanLines ''10.0.0.0/8 # note\<newline>\<newline>172.16.0.0/12\<newline>'') []
          = Inr [p1, p2]"
    if "cidr ''10.0.0.0/8'' = Inr p1 \<and> cidr ''172.16.0.0/12'' = Inr p2"
  proof -
    obtain l1 l2 l3 where ls: "ScanLines ''10.0.0.0/8 # note\<newline>\<newline>172.16.0.0/12\<newline>'' = [l1, l2, l3]"
      and t: "TrimSpace (strip_comment l1) = ''10.0.0.0/8''" "TrimSpace (strip_comment l2) = []"
        "TrimSpace (strip_comment l3) = ''172.16.0.0/12''"
      using scenario_A_lines by auto
    show ?thesis using that by (simp add: ls parse_line_def t)
  qed
qed

theorem line_parser_contract_witness:
  "parse_line ipv4_of_string ''10.0.0.0/8 # note'' = parse_line ipv4_of_string ''10.0.0.0/8 ''
   \<and> scan_loop ipv4_of_string [''# only a comment'', ''172.16.0.0/12''] []
       = scan_loop ipv4_of_string [''172.16.0.0/12''] []
   \<and> scan_loop ipv4_of_string [''10.0.0.0/33'', ''172.16.0.0/12''] [] = Inl ''10.0.0.0/33''
   \<and> scan_loop ipv4_of_string (ScanLines ''10.0.0.0/8 # note\<newline>\<newline>172.16.0.0/12\<newline>'') []
       = Inr [IPv4Prefix 10 0 0 0 8, IPv4Prefix 172 16 0 0 12]"
proof -
  have c: "ipv4_of_string ''10.0.0.0/8'' = Inr (IPv4Prefix 10 0 0 0 8) \<and>
    ipv4_of_string ''172.16.0.0/12'' = Inr (IPv4Prefix 172 16 0 0 12)"
    by code_simp
  have h: "CHR ''#'' \<notin> set ''10.0.0.0/8 ''" by simp
  have s1: "parse_line ipv4_of_string ''# only a comment'' = Skipped" by code_simp
  have s2: "parse_line ipv4_of_string ''10.0.0.0/33'' = Failed ''10.0.0.0/33''" by code_simp
  note t1 = line_parser_contract [of "''10.0.0.0/8 ''" ipv4_of_string "'' note''"
        "''# only a comment''" "[''172.16.0.0/12'']" "[]" "[]" "IPv4Prefix 0 0 0 0 0"
        "IPv4Prefix 10 0 0 0 8" "IPv4Prefix 172 16 0 0 12"]
  note t2 = line_parser_contract [of "[]" ipv4_of_string "[]"
        "''10.0.0.0/33''" "[''172.16.0.0/12'']" "[]" "''10.0.0.0/33''" "IPv4Prefix 0 0 0 0 0"
        "IPv4Prefix 10 0 0 0 8" "IPv4Prefix 172 16 0 0 12"]
  have a1: "parse_line ipv4_of_string ''10.0.0.0/8 # note'' = parse_line ipv4_of_string ''10.0.0.0/8 ''"
    using t1 [THEN conjunct1] h by simp
  have a4: "scan_loop ipv4_of_string [''# only a comment'', ''172.16.0.0/12''] []
       = scan_loop ipv4_of_string [''172.16.0.0/12''] []"
    using t1 [THEN conjunct2, THEN conjunct2, THEN conjunct2, THEN conjunct1] s1 by blast
  have a5: "scan_loop ipv4_of_string [''10.0.0.0/33'', ''172.16.0.0/12''] [] = Inl ''10.0.0.0/33''"
    using t2 [THEN conjunct2, THEN conjunct2, THEN conjunct2, THEN conjunct2, THEN conjunct1] s2
    by blast
  have a7: "scan_loop ipv4_of_string (ScanLines ''10.0.0.0/8 # note\<newline>\<newline>172.16.0.0/12\<newline>'') []
       = Inr [IPv4Prefix 10 0 0 0 8, IPv4Prefix 172 16 0 0 12]"
    using t1 [THEN conjunct2, THEN conjunct2, THEN conjunct2, THEN conjunct2, THEN conjunct2,
        THEN conjunct2] c
    by blast
  show ?thesis using a1 a4 a5 a7 by blast
qed

section \<open>The aggregator\<close>

lemma fetch_loop_Retries:
  "Retries s' = Retries s \<Longrightarrow>
   fetch_loop e s' api attempt lastErr w = fetch_loop e s api attempt lastErr w"
proof (induction e s api attempt lastErr w rule: fetch_loop.induct)
  case (1 e s api attempt lastErr w)
  show ?case
  proof (cases "attempt \<le> Retries s")
    case False
    then show ?thesis
      using "1.prems"
      by (simp add: fetch_loop.simps [of e s api attempt] fetch_loop.simps [of e s' api attempt])
  next
    case True
    obtain r w1 where a: "attempt_once e api w = (r, w1)" by (cases "attempt_once e api w")
    show ?thesis
    proof (cases r)
      case (Retry err)
      show ?thesis
        using "1.IH" [OF True a [symmetric] Retry "1.prems"] True a Retry "1.prems"
        by (simp add: fetch_loop.simps [of e s api attempt] fetch_loop.simps [of e s' api attempt])
    qed (use True a "1.prems" in
        \<open>simp_all add: fetch_loop.simps [of e s api attempt] fetch_loop.simps [of e s' api attempt]\<close>)
  qed
qed

lemma fetch_Retries: "Retries s' = Retries s \<Longrightarrow> fetch e s' api w = fetch e s api w"
  by (simp add: fetch_def fetch_loop_Retries [of s' s])

lemma fetch_frame:
  "files (snd (fetch e s api w)) = files w \<and>
   io_fault (snd (fetch e s api w)) = io_fault w \<and>
   log (snd (fetch e s api w)) = log w \<and>
   refresh_loops (snd (fetch e s api w)) = refresh_loops w"
  unfolding fetch_def by (rule fetch_loop_frame)

lemma getPrefixes_loop_Retries:
  "Retries s' = Retries s \<Longrightarrow>
   getPrefixes_loop e s' urls acc w = getPrefixes_loop e s urls acc w"
proof (induction urls arbitrary: acc w)
  case Nil
  show ?case by simp
next
  case (Cons url urls)
  obtain r w1 where f: "fetch e s url w = (r, w1)" by (cases "fetch e s url w")
  then have f': "fetch e s' url w = (r, w1)" using Cons.prems by (simp add: fetch_Retries [of s' s])
  show ?case
  proof (cases r)
    case (Inl err)
    with f f' show ?thesis by simp
  next
    case (Inr prefixes)
    with f f' Cons.IH [OF Cons.prems, of "acc @ prefixes" w1] show ?thesis by simp
  qed
qed

lemma getPrefixes_loop_frame:
  "files (snd (getPrefixes_loop e s urls acc w)) = files w \<and>
   io_fault (snd (getPrefixes_loop e s urls acc w)) = io_fault w \<and>
   log (snd (getPrefixes_loop e s urls acc w)) = log w \<and>
   refresh_loops (snd (getPrefixes_loop e s urls acc w)) = refresh_loops w"
proof (induction urls arbitrary: acc w)
  case Nil
  show ?case by simp
next
  case (Cons url urls)
  obtain r w1 where f: "fetch e s url w = (r, w1)" by (cases "fetch e s url w")
  have fr: "files w1 = files w \<and> io_fault w1 = io_fault w \<and> log w1 = log w \<and>
      refresh_loops w1 = refresh_loops w"
    using fetch_frame [of e s url w] f by simp
  show ?case
  proof (cases r)
    case (Inl err)
    with f fr show ?thesis by simp
  next
    case (Inr prefixes)
    with f fr Cons.IH [of "acc @ prefixes" w1] show ?thesis by simp
  qed
qed

lemma getPrefixes_frame:
  "files (snd (getPrefixes e s w)) = files w \<and>
   io_fault (snd (getPrefixes e s w)) = io_fault w \<and>
   log (snd (getPrefixes e s w)) = log w \<and>
   refresh_loops (snd (getPrefixes e s w)) = refresh_loops w"
  unfolding getPrefixes_def by (rule getPrefixes_loop_frame)

lemma getPrefixes_loop_acc:
  "getPrefixes_loop e s urls acc w =
     (case getPrefixes_loop e s urls [] w of
        (Inl err, w1) \<Rightarrow> (Inl err, w1)
      | (Inr P, w1) \<Rightarrow> (Inr (acc @ P), w1))"
proof (induction urls arbitrary: acc w)
  case Nil
  show ?case by simp
next
  case (Cons url urls)
  obtain r w1 where f: "fetch e s url w = (r, w1)" by (cases "fetch e s url w")
  show ?case
  proof (cases r)
    case (Inl err)
    with f show ?thesis by simp
  next
    case (Inr prefixes)
    show ?thesis
    proof (cases "getPrefixes_loop e s urls [] w1")
      case (Pair r2 w2)
      show ?thesis
        using f Inr Pair Cons.IH [of "acc @ prefixes" w1] Cons.IH [of "prefixes" w1]
        by (cases r2) simp_all
    qed
  qed
qed

lemma getPrefixes_loop_append:
  "getPrefixes_loop e s (us @ vs) acc w =
     (case getPrefixes_loop e s us acc w of
        (Inl err, w1) \<Rightarrow> (Inl err, w1)
      | (Inr acc1, w1) \<Rightarrow> getPrefixes_loop e s vs acc1 w1)"
proof (induction us arbitrary: acc w)
  case Nil
  show ?case by simp
next
  case (Cons url us)
  obtain r w1 where f: "fetch e s url w = (r, w1)" by (cases "fetch e s url w")
  show ?case
  proof (cases r)
    case (Inl err)
    with f show ?thesis by simp
  next
    case (Inr prefixes)
    with f Cons.IH [of "acc @ prefixes" w1] show ?thesis by simp
  qed
qed

text \<open>
  C7. \<open>getPrefixes\<close> fetches the URLs in the order of the list and appends the results
  in that order. For a URL \<open>u\<close> between the URLs \<open>us\<close> before it and \<open>vs\<close> after it: when
  a URL of \<open>us\<close> fails, the result is that error and the world is the one that fetch
  left; otherwise \<open>u\<close> is fetched in the world the URLs of \<open>us\<close> left, and when it fails
  the result is its error and no URL of \<open>vs\<close> is fetched; otherwise the URLs of \<open>vs\<close>
  follow, and the result is the concatenation. An error carries no prefixes.
\<close>

theorem getPrefixes_in_order:
  "getPrefixes e (s\<lparr>URLs := []\<rparr>) w = (Inr [], w)
   \<and> getPrefixes e (s\<lparr>URLs := us @ u # vs\<rparr>) w =
     (case getPrefixes e (s\<lparr>URLs := us\<rparr>) w of
        (Inl err, w1) \<Rightarrow> (Inl err, w1)
      | (Inr P, w1) \<Rightarrow>
          (case fetch e s u w1 of
             (Inl err, w2) \<Rightarrow> (Inl err, w2)
           | (Inr Q, w2) \<Rightarrow>
               (case getPrefixes e (s\<lparr>URLs := vs\<rparr>) w2 of
                  (Inl err, w3) \<Rightarrow> (Inl err, w3)
                | (Inr R, w3) \<Rightarrow> (Inr (P @ Q @ R), w3))))"
proof
  show "getPrefixes e (s\<lparr>URLs := []\<rparr>) w = (Inr [], w)" by (simp add: getPrefixes_def)
next
  have g: "getPrefixes e (s\<lparr>URLs := x\<rparr>) v = getPrefixes_loop e s x [] v" for x v
    by (simp add: getPrefixes_def getPrefixes_loop_Retries [of "s\<lparr>URLs := x\<rparr>" s])
  obtain r1 w1 where a: "getPrefixes_loop e s us [] w = (r1, w1)"
    by (cases "getPrefixes_loop e s us [] w")
  have ap: "getPrefixes_loop e s (us @ u # vs) [] w =
     (case r1 of Inl err \<Rightarrow> (Inl err, w1) | Inr acc1 \<Rightarrow> getPrefixes_loop e s (u # vs) acc1 w1)"
    using getPrefixes_loop_append [of e s us "u # vs" "[]" w] a by (cases r1) simp_all
  show "getPrefixes e (s\<lparr>URLs := us @ u # vs\<rparr>) w =
     (case getPrefixes e (s\<lparr>URLs := us\<rparr>) w of
        (Inl err, w1) \<Rightarrow> (Inl err, w1)
      | (Inr P, w1) \<Rightarrow>
          (case fetch e s u w1 of
             (Inl err, w2) \<Rightarrow> (Inl err, w2)
           | (Inr Q, w2) \<Rightarrow>
               (case getPrefixes e (s\<lparr>URLs := vs\<rparr>) w2 of
                  (Inl err, w3) \<Rightarrow> (Inl err, w3)
                | (Inr R, w3) \<Rightarrow> (Inr (P @ Q @ R), w3))))"
    unfolding g ap a
  proof (cases r1)
    case (Inl err)
    then show "(case r1 of Inl err \<Rightarrow> (Inl err, w1)
        | Inr acc1 \<Rightarrow> getPrefixes_loop e s (u # vs) acc1 w1) =
      (case (r1, w1) of
        (Inl err, w1) \<Rightarrow> (Inl err, w1)
      | (Inr P, w1) \<Rightarrow>
          (case fetch e s u w1 of
             (Inl err, w2) \<Rightarrow> (Inl err, w2)
           | (Inr Q, w2) \<Rightarrow>
               (case getPrefixes_loop e s vs [] w2 of
                  (Inl err, w3) \<Rightarrow> (Inl err, w3)
                | (Inr R, w3) \<Rightarrow> (Inr (P @ Q @ R), w3))))"
      by simp
  next
    case (Inr P)
    obtain r2 w2 where b: "fetch e s u w1 = (r2, w2)" by (cases "fetch e s u w1")
    show "(case r1 of Inl err \<Rightarrow> (Inl err, w1)
        | Inr acc1 \<Rightarrow> getPrefixes_loop e s (u # vs) acc1 w1) =
      (case (r1, w1) of
        (Inl err, w1) \<Rightarrow> (Inl err, w1)
      | (Inr P, w1) \<Rightarrow>
          (case fetch e s u w1 of
             (Inl err, w2) \<Rightarrow> (Inl err, w2)
           | (Inr Q, w2) \<Rightarrow>
               (case getPrefixes_loop e s vs [] w2 of
                  (Inl err, w3) \<Rightarrow> (Inl err, w3)
                | (Inr R, w3) \<Rightarrow> (Inr (P @ Q @ R), w3))))"
    proof (cases r2)
      case (Inl err)
      with Inr b show ?thesis by simp
    next
      case Q: (Inr Q)
      obtain r3 w3 where c: "getPrefixes_loop e s vs [] w2 = (r3, w3)"
        by (cases "getPrefixes_loop e s vs [] w2")
      have "getPrefixes_loop e s vs (P @ Q) w2 =
         (case r3 of Inl err \<Rightarrow> (Inl err, w3) | Inr R \<Rightarrow> (Inr ((P @ Q) @ R), w3))"
        using getPrefixes_loop_acc [of e s vs "P @ Q" w2] c by (cases r3) simp_all
      with Inr b Q c show ?thesis by (cases r3) simp_all
    qed
  qed
qed

section \<open>Refresh cycles and provisioning\<close>

lemma loadFromCache_cong:
  assumes a: "files w' = files w" and b: "io_fault w' = io_fault w"
  shows "loadFromCache e s w' = loadFromCache e s w"
proof -
  have o: "os_Open w' path = os_Open w path" for path unfolding os_Open_def a b ..
  show ?thesis unfolding loadFromCache_def b o ..
qed

lemma refresh_tick_fail:
  assumes "fst (getPrefixes e s w) = Inl err"
  shows "refresh_tick e s w = (s, warn (WarnRefreshFailed err) (snd (getPrefixes e s w)))"
  using assms by (cases "getPrefixes e s w") (simp add: refresh_tick_def)

lemma getPrefixes_Interval: "getPrefixes e (s\<lparr>Interval := i\<rparr>) w = getPrefixes e s w"
proof -
  have "Retries (s\<lparr>Interval := i\<rparr>) = Retries s" by simp
  then have "getPrefixes_loop e (s\<lparr>Interval := i\<rparr>) (URLs s) [] w
      = getPrefixes_loop e s (URLs s) [] w"
    by (rule getPrefixes_loop_Retries)
  then show ?thesis by (simp add: getPrefixes_def)
qed

lemma refreshLoop_Tick:
  "0 \<le> Interval s \<Longrightarrow>
   refreshLoop e [Tick] s w =
     Inr (True, refresh_tick e (if Interval s = 0 then s\<lparr>Interval := 3600000000000\<rparr> else s) w)"
  by (simp add: refreshLoop_def Let_def split: prod.splits)

lemma refreshLoop_panics:
  "Interval s < 0 \<Longrightarrow> refreshLoop e evs s w = Inl ''non-positive interval for NewTicker''"
  by (simp add: refreshLoop_def Let_def)

text \<open>
  C4. A refresh cycle whose aggregate fetch returns an error leaves the module, and so
  its published prefixes, as it was and leaves every file as it was; a cycle whose
  aggregate fetch succeeds replaces the published prefixes by the fetched ones. So does
  the first tick of \<open>refreshLoop\<close> when the interval is not negative; with a negative
  interval \<open>refreshLoop\<close> panics before any cycle.
\<close>

theorem refresh_cycle_frame:
  "(fst (getPrefixes e s w) = Inl err \<longrightarrow>
      fst (refresh_tick e s w) = s \<and> files (snd (refresh_tick e s w)) = files w)
   \<and> (fst (getPrefixes e s w) = Inr P \<longrightarrow>
      fst (refresh_tick e s w) = s\<lparr>ranges := P\<rparr>)
   \<and> (0 \<le> Interval s \<and> fst (getPrefixes e s w) = Inl err \<longrightarrow>
      (\<exists>s1 w1. refreshLoop e [Tick] s w = Inr (True, s1, w1)
         \<and> ranges s1 = ranges s \<and> files w1 = files w))
   \<and> (0 \<le> Interval s \<and> fst (getPrefixes e s w) = Inr P \<longrightarrow>
      (\<exists>s1 w1. refreshLoop e [Tick] s w = Inr (True, s1, w1) \<and> ranges s1 = P))
   \<and> (Interval s < 0 \<longrightarrow>
      refreshLoop e evs s w = Inl ''non-positive interval for NewTicker'')"
proof -
  let ?s = "if Interval s = 0 then s\<lparr>Interval := 3600000000000\<rparr> else s"
  have g: "getPrefixes e ?s w = getPrefixes e s w" by (simp add: getPrefixes_Interval)
  have r: "ranges ?s = ranges s" by simp
  have fail: "fst (refresh_tick e t w) = t \<and> files (snd (refresh_tick e t w)) = files w"
    if a: "fst (getPrefixes e t w) = Inl err" for t :: "'a URLIPRange"
    using getPrefixes_frame [of e t w] by (simp add: refresh_tick_fail [OF a] warn_def)
  have ok: "fst (refresh_tick e t w) = t\<lparr>ranges := P\<rparr>"
    if a: "fst (getPrefixes e t w) = Inr P" for t :: "'a URLIPRange"
    using a
    by (cases "getPrefixes e t w")
      (simp add: refresh_tick_def Let_def split: prod.splits option.splits)
  obtain s1 w1 where t: "refresh_tick e ?s w = (s1, w1)" by (cases "refresh_tick e ?s w")
  show ?thesis
  proof (intro conjI impI)
    assume a: "fst (getPrefixes e s w) = Inl err"
    show "fst (refresh_tick e s w) = s" and "files (snd (refresh_tick e s w)) = files w"
      using fail [OF a] by simp_all
  next
    assume a: "fst (getPrefixes e s w) = Inr P"
    show "fst (refresh_tick e s w) = s\<lparr>ranges := P\<rparr>" using a by (rule ok)
  next
    assume a: "0 \<le> Interval s \<and> fst (getPrefixes e s w) = Inl err"
    then have "fst (getPrefixes e ?s w) = Inl err" by (simp only: g)
    then have "fst (refresh_tick e ?s w) = ?s \<and> files (snd (refresh_tick e ?s w)) = files w"
      by (rule fail)
    then have "ranges s1 = ranges s \<and> files w1 = files w" using r by (simp only: t fst_conv snd_conv)
    moreover have "refreshLoop e [Tick] s w = Inr (True, s1, w1)"
      using a by (simp only: refreshLoop_Tick t)
    ultimately show "\<exists>s1 w1. refreshLoop e [Tick] s w = Inr (True, s1, w1)
         \<and> ranges s1 = ranges s \<and> files w1 = files w"
      by blast
  next
    assume a: "0 \<le> Interval s \<and> fst (getPrefixes e s w) = Inr P"
    then have "fst (getPrefixes e ?s w) = Inr P" by (simp only: g)
    then have "fst (refresh_tick e ?s w) = ?s\<lparr>ranges := P\<rparr>" by (rule ok)
    then have "ranges s1 = P" by (simp only: t fst_conv) simp
    moreover have "refreshLoop e [Tick] s w = Inr (True, s1, w1)"
      using a by (simp only: refreshLoop_Tick t)
    ultimately show "\<exists>s1 w1. refreshLoop e [Tick] s w = Inr (True, s1, w1) \<and> ranges s1 = P"
      by blast
  next
    assume "Interval s < 0"
    then show "refreshLoop e evs s w = Inl ''non-positive interval for NewTicker''"
      by (rule refreshLoop_panics)
  qed
qed

theorem refresh_cycle_frame_witness:
  "fst (refresh_tick (ipv4_env srv_all_fail) (listed\<lparr>ranges := [IPv4Prefix 10 0 0 0 8]\<rparr>) stale_world)
     = listed\<lparr>ranges := [IPv4Prefix 10 0 0 0 8]\<rparr>
   \<and> files (snd (refresh_tick (ipv4_env srv_all_fail) (listed\<lparr>ranges := [IPv4Prefix 10 0 0 0 8]\<rparr>)
        stale_world)) = files stale_world
   \<and> fst (refresh_tick (ipv4_env srv_ok) (listed\<lparr>ranges := [IPv4Prefix 10 0 0 0 8]\<rparr>) stale_world)
     = listed\<lparr>ranges := [IPv4Prefix 192 0 2 1 32]\<rparr>
   \<and> (\<exists>s1 w1. refreshLoop (ipv4_env srv_all_fail) [Tick]
          (listed\<lparr>ranges := [IPv4Prefix 10 0 0 0 8]\<rparr>) stale_world = Inr (True, s1, w1)
        \<and> ranges s1 = [IPv4Prefix 10 0 0 0 8] \<and> files w1 = files stale_world)
   \<and> (\<exists>s1 w1. refreshLoop (ipv4_env srv_ok) [Tick]
          (listed\<lparr>ranges := [IPv4Prefix 10 0 0 0 8]\<rparr>) stale_world = Inr (True, s1, w1)
        \<and> ranges s1 = [IPv4Prefix 192 0 2 1 32])
   \<and> refreshLoop (ipv4_env srv_ok) [Tick] (listed\<lparr>Interval := - 1000000000\<rparr>) stale_world
     = Inl ''non-positive interval for NewTicker''"
proof -
  let ?s = "listed\<lparr>ranges := [IPv4Prefix 10 0 0 0 8]\<rparr>"
  let ?n = "listed\<lparr>Interval := - 1000000000\<rparr>"
  let ?err = "AfterRetries 2 (Some (HTTPStatusError ''http://list'' 500))"
  have a: "fst (getPrefixes (ipv4_env srv_all_fail) ?s stale_world) = Inl ?err"
    by code_simp
  have b: "fst (getPrefixes (ipv4_env srv_ok) ?s stale_world) = Inr [IPv4Prefix 192 0 2 1 32]"
    by code_simp
  have i: "0 \<le> Interval ?s" by (simp add: listed_def URLIPRange_zero_def)
  have n: "Interval ?n < 0" by simp
  note f = refresh_cycle_frame [of "ipv4_env srv_all_fail" ?s stale_world ?err "[]" "[Tick]"]
  note k = refresh_cycle_frame [of "ipv4_env srv_ok" ?s stale_world ArgErr
      "[IPv4Prefix 192 0 2 1 32]" "[Tick]"]
  note p = refresh_cycle_frame [of "ipv4_env srv_ok" ?n stale_world ArgErr "[]" "[Tick]"]
  have 1: "fst (refresh_tick (ipv4_env srv_all_fail) ?s stale_world) = ?s
      \<and> files (snd (refresh_tick (ipv4_env srv_all_fail) ?s stale_world)) = files stale_world"
    using f [THEN conjunct1] a by blast
  have 2: "fst (refresh_tick (ipv4_env srv_ok) ?s stale_world)
      = ?s\<lparr>ranges := [IPv4Prefix 192 0 2 1 32]\<rparr>"
    using k [THEN conjunct2, THEN conjunct1] b by blast
  have 3: "\<exists>s1 w1. refreshLoop (ipv4_env srv_all_fail) [Tick] ?s stale_world = Inr (True, s1, w1)
        \<and> ranges s1 = ranges ?s \<and> files w1 = files stale_world"
    using f [THEN conjunct2, THEN conjunct2, THEN conjunct1] a i by blast
  have 4: "\<exists>s1 w1. refreshLoop (ipv4_env srv_ok) [Tick] ?s stale_world = Inr (True, s1, w1)
        \<and> ranges s1 = [IPv4Prefix 192 0 2 1 32]"
    using k [THEN conjunct2, THEN conjunct2, THEN conjunct2, THEN conjunct1] b i by blast
  have 5: "refreshLoop (ipv4_env srv_ok) [Tick] ?n stale_world
      = Inl ''non-positive interval for NewTicker''"
    using p [THEN conjunct2, THEN conjunct2, THEN conjunct2, THEN conjunct2] n by blast
  show ?thesis using 1 2 3 4 5 by simp
qed

lemma saveToCache_ranges: "saveToCache e (s\<lparr>ranges := r\<rparr>) P w = saveToCache e s P w"
  by (simp add: saveToCache_def cachePath_def)

lemma Provision_fetched:
  assumes "fst (getPrefixes e s w) = Inr P"
  shows "fst (Provision e s w) = None"
    and "fst (snd (Provision e s w)) = s\<lparr>ranges := P\<rparr>"
    and "files (snd (snd (Provision e s w)))
      = files (snd (saveToCache e s P (snd (getPrefixes e s w))))"
    and "refresh_loops (snd (snd (Provision e s w)))
      = Suc (refresh_loops (snd (saveToCache e s P (snd (getPrefixes e s w)))))"
proof -
  obtain w1 where g: "getPrefixes e s w = (Inr P, w1)"
    using assms by (cases "getPrefixes e s w") simp
  obtain r w2 where sv: "saveToCache e s P w1 = (r, w2)" by (cases "saveToCache e s P w1")
  have p: "Provision e s w =
    (case r of Some err \<Rightarrow> (None, s\<lparr>ranges := P\<rparr>, go_refreshLoop (warn (WarnSaveFailed err) w2))
     | None \<Rightarrow> (None, s\<lparr>ranges := P\<rparr>, go_refreshLoop w2))"
    using g sv by (simp add: Provision_def saveToCache_ranges Let_def)
  show "fst (Provision e s w) = None"
    and "fst (snd (Provision e s w)) = s\<lparr>ranges := P\<rparr>"
    and "files (snd (snd (Provision e s w)))
      = files (snd (saveToCache e s P (snd (getPrefixes e s w))))"
    and "refresh_loops (snd (snd (Provision e s w)))
      = Suc (refresh_loops (snd (saveToCache e s P (snd (getPrefixes e s w)))))"
    using g sv by (cases r; simp add: p go_refreshLoop_def warn_def)+
qed

lemma Provision_failed:
  assumes "fst (getPrefixes e s w) = Inl err"
  shows "Provision e s w =
    (case loadFromCache e s w of
       Inl cacheErr \<Rightarrow> (Some (NoCacheAvailable err cacheErr), s, snd (getPrefixes e s w))
     | Inr cached \<Rightarrow>
         (None, s\<lparr>ranges := cached\<rparr>,
          go_refreshLoop (warn (WarnUsingCache err) (snd (getPrefixes e s w)))))"
proof -
  obtain w1 where g: "getPrefixes e s w = (Inl err, w1)"
    using assms by (cases "getPrefixes e s w") simp
  have "loadFromCache e s w1 = loadFromCache e s w"
    using getPrefixes_frame [of e s w] g by (intro loadFromCache_cong) simp_all
  then show ?thesis using g by (cases "loadFromCache e s w") (simp_all add: Provision_def)
qed

text \<open>
  C2. When the initial aggregate fetch succeeds, \<open>Provision\<close> returns no error whatever
  \<open>saveToCache\<close> returns, publishes the fetched prefixes, leaves the files as the call
  of \<open>saveToCache\<close> left them and starts the refresh loop. When the fetch fails and
  \<open>loadFromCache\<close> succeeds, it returns no error, publishes exactly the cached prefixes,
  writes no file and starts the refresh loop. When both fail it returns the error that
  holds both errors, changes neither the module nor a file and starts no refresh loop.
\<close>

theorem provision_starting:
  "(fst (getPrefixes e s w) = Inr P \<longrightarrow>
      fst (Provision e s w) = None
      \<and> fst (snd (Provision e s w)) = s\<lparr>ranges := P\<rparr>
      \<and> files (snd (snd (Provision e s w)))
          = files (snd (saveToCache e s P (snd (getPrefixes e s w))))
      \<and> refresh_loops (snd (snd (Provision e s w))) = Suc (refresh_loops w))
   \<and> (fst (getPrefixes e s w) = Inl err \<and> loadFromCache e s w = Inr C \<longrightarrow>
      fst (Provision e s w) = None
      \<and> fst (snd (Provision e s w)) = s\<lparr>ranges := C\<rparr>
      \<and> files (snd (snd (Provision e s w))) = files w
      \<and> refresh_loops (snd (snd (Provision e s w))) = Suc (refresh_loops w))
   \<and> (fst (getPrefixes e s w) = Inl err \<and> loadFromCache e s w = Inl cacheErr \<longrightarrow>
      fst (Provision e s w) = Some (NoCacheAvailable err cacheErr)
      \<and> fst (snd (Provision e s w)) = s
      \<and> files (snd (snd (Provision e s w))) = files w
      \<and> refresh_loops (snd (snd (Provision e s w))) = refresh_loops w)"
proof (intro conjI impI)
  assume a: "fst (getPrefixes e s w) = Inr P"
  show "fst (Provision e s w) = None" by (rule Provision_fetched(1) [OF a])
  show "fst (snd (Provision e s w)) = s\<lparr>ranges := P\<rparr>" by (rule Provision_fetched(2) [OF a])
  show "files (snd (snd (Provision e s w)))
          = files (snd (saveToCache e s P (snd (getPrefixes e s w))))"
    by (rule Provision_fetched(3) [OF a])
  have "refresh_loops (snd (saveToCache e s P v)) = refresh_loops v" for v
    by (simp add: saveToCache_def os_Rename_def os_Remove_def Let_def
        split: sum.splits option.splits)
  then show "refresh_loops (snd (snd (Provision e s w))) = Suc (refresh_loops w)"
    using Provision_fetched(4) [OF a] getPrefixes_frame [of e s w] by simp
next
  assume a: "fst (getPrefixes e s w) = Inl err \<and> loadFromCache e s w = Inr C"
  then have p: "Provision e s w =
      (None, s\<lparr>ranges := C\<rparr>, go_refreshLoop (warn (WarnUsingCache err) (snd (getPrefixes e s w))))"
    by (simp add: Provision_failed)
  show "fst (Provision e s w) = None" and "fst (snd (Provision e s w)) = s\<lparr>ranges := C\<rparr>"
    and "files (snd (snd (Provision e s w))) = files w"
    and "refresh_loops (snd (snd (Provision e s w))) = Suc (refresh_loops w)"
    using getPrefixes_frame [of e s w] by (simp_all add: p go_refreshLoop_def warn_def)
next
  assume a: "fst (getPrefixes e s w) = Inl err \<and> loadFromCache e s w = Inl cacheErr"
  then have p: "Provision e s w = (Some (NoCacheAvailable err cacheErr), s, snd (getPrefixes e s w))"
    by (simp add: Provision_failed)
  show "fst (Provision e s w) = Some (NoCacheAvailable err cacheErr)"
    and "fst (snd (Provision e s w)) = s"
    and "files (snd (snd (Provision e s w))) = files w"
    and "refresh_loops (snd (snd (Provision e s w))) = refresh_loops w"
    using getPrefixes_frame [of e s w] by (simp_all add: p)
qed

theorem provision_starting_witness:
  "fst (Provision (ipv4_env srv_ok) listed world0) = None
   \<and> ranges (fst (snd (Provision (ipv4_env srv_ok) listed world0))) = [IPv4Prefix 192 0 2 1 32]
   \<and> fst (Provision (ipv4_env srv_all_fail) listed stale_world) = None
   \<and> ranges (fst (snd (Provision (ipv4_env srv_all_fail) listed stale_world)))
       = [IPv4Prefix 10 0 0 0 8]
   \<and> files (snd (snd (Provision (ipv4_env srv_all_fail) listed stale_world))) = files stale_world
   \<and> fst (Provision (ipv4_env srv_all_fail) listed world0)
       = Some (NoCacheAvailable (AfterRetries 2 (Some (HTTPStatusError ''http://list'' 500)))
           (OSError ''no such file or directory''))
   \<and> refresh_loops (snd (snd (Provision (ipv4_env srv_all_fail) listed world0))) = 0"
proof -
  let ?err = "AfterRetries 2 (Some (HTTPStatusError ''http://list'' 500))"
  have a: "fst (getPrefixes (ipv4_env srv_ok) listed world0) = Inr [IPv4Prefix 192 0 2 1 32]"
    by code_simp
  have b: "fst (getPrefixes (ipv4_env srv_all_fail) listed stale_world) = Inl ?err
      \<and> loadFromCache (ipv4_env srv_all_fail) listed stale_world = Inr [IPv4Prefix 10 0 0 0 8]"
    by code_simp
  have c: "fst (getPrefixes (ipv4_env srv_all_fail) listed world0) = Inl ?err
      \<and> loadFromCache (ipv4_env srv_all_fail) listed world0
          = Inl (OSError ''no such file or directory'')"
    by code_simp
  have z: "refresh_loops world0 = 0" by (simp add: world0_def)
  show ?thesis
    using provision_starting [of "ipv4_env srv_ok" listed world0 "[IPv4Prefix 192 0 2 1 32]"
        ArgErr "[]" ArgErr, THEN conjunct1] a
      provision_starting [of "ipv4_env srv_all_fail" listed stale_world "[]"
        ?err "[IPv4Prefix 10 0 0 0 8]" ArgErr, THEN conjunct2, THEN conjunct1] b
      provision_starting [of "ipv4_env srv_all_fail" listed world0 "[]"
        ?err "[]" "OSError ''no such file or directory''", THEN conjunct2, THEN conjunct2] c z
    by simp
qed

text \<open>
  C9, as stated, has a configuration without URL fail to unmarshal or to provision. The
  inputs of \<open>TestDefault\<close>, an empty block on the zero module, unmarshal without error,
  leave the URL list empty, and \<open>Provision\<close> then returns no error.
\<close>

theorem empty_url_list_counterexample:
  "UnmarshalCaddyfile (ipv4_env srv_all_fail) [] [] URLIPRange_zero = Inr URLIPRange_zero
   \<and> URLs (URLIPRange_zero :: ipv4_prefix URLIPRange) = []
   \<and> fst (Provision (ipv4_env srv_all_fail) URLIPRange_zero world0) = None"
  by (simp add: UnmarshalCaddyfile_def URLIPRange_zero_def Provision_def getPrefixes_def
      Let_def split: prod.splits option.splits)

text \<open>
  C9, amended. An empty block unmarshals without error and leaves the module as it was;
  for every module whose URL list is empty the aggregate fetch makes no request and
  returns the empty list, and \<open>Provision\<close> returns no error, publishes the empty prefix
  list and makes no request.
\<close>

theorem empty_url_list_provisions:
  "UnmarshalCaddyfile e [] [] m = Inr m
   \<and> (URLs s = [] \<longrightarrow>
        getPrefixes e s w = (Inr [], w)
        \<and> fst (Provision e s w) = None
        \<and> fst (snd (Provision e s w)) = s\<lparr>ranges := []\<rparr>
        \<and> requests (snd (snd (Provision e s w))) = requests w)"
proof (intro conjI impI)
  show "UnmarshalCaddyfile e [] [] m = Inr m" by (simp add: UnmarshalCaddyfile_def)
next
  assume a: "URLs s = []"
  then show g: "getPrefixes e s w = (Inr [], w)" by (simp add: getPrefixes_def)
  then have f: "fst (getPrefixes e s w) = Inr []" by simp
  show "fst (Provision e s w) = None" by (rule Provision_fetched(1) [OF f])
  show "fst (snd (Provision e s w)) = s\<lparr>ranges := []\<rparr>" by (rule Provision_fetched(2) [OF f])
  have r: "requests (snd (saveToCache e s P v)) = requests v" for P v
    by (simp add: saveToCache_def os_Rename_def os_Remove_def Let_def
        split: sum.splits option.splits)
  obtain x w2 where sv: "saveToCache e s [] w = (x, w2)" by (cases "saveToCache e s [] w")
  then have "requests w2 = requests w" using r [of "[]" w] by simp
  then show "requests (snd (snd (Provision e s w))) = requests w"
    using g sv
    by (cases x)
      (simp_all add: Provision_def saveToCache_ranges Let_def go_refreshLoop_def warn_def)
qed

theorem empty_url_list_provisions_witness:
  "getPrefixes (ipv4_env srv_all_fail) URLIPRange_zero world0 = (Inr [], world0)
   \<and> fst (Provision (ipv4_env srv_all_fail) URLIPRange_zero world0) = None
   \<and> requests (snd (snd (Provision (ipv4_env srv_all_fail) URLIPRange_zero world0)))
       = requests world0"
proof -
  have "URLs (URLIPRange_zero :: ipv4_prefix URLIPRange) = []" by (simp add: URLIPRange_zero_def)
  then show ?thesis
    using empty_url_list_provisions [of "ipv4_env srv_all_fail" URLIPRange_zero URLIPRange_zero world0]
    by simp
qed

section \<open>The cache file, saved and loaded\<close>

lemma cache_loop_String:
  "(\<forall>p \<in> set P. cidr (str p) = Inr p) \<Longrightarrow> cache_loop cidr (map str P) acc = Inr (acc @ P)"
  by (induction P arbitrary: acc) simp_all

lemma cache_loop_valid:
  "(\<forall>x \<in> set xs. \<exists>p. cidr x = Inr p) \<Longrightarrow>
   cache_loop cidr xs acc = Inr (acc @ map (\<lambda>x. projr (cidr x)) xs)"
proof (induction xs arbitrary: acc)
  case Nil
  show ?case by simp
next
  case (Cons x xs)
  then obtain p where p: "cidr x = Inr p" by auto
  have "cache_loop cidr xs (acc @ [p]) = Inr ((acc @ [p]) @ map (\<lambda>x. projr (cidr x)) xs)"
    using Cons.prems by (intro Cons.IH) simp
  with p show ?case by simp
qed

lemma saveToCache_written:
  assumes "saveToCache e s P w = (None, w1)" and "cachePath e s = Inr path"
  shows "files w1 path
      = Some (json_Encode e \<lparr>Prefixes = map (Prefix_String e) P, UpdatedAt = now w\<rparr>)"
  using assms
  by (auto simp: saveToCache_def os_Rename_def os_Remove_def Let_def
      split: option.splits if_splits)

text \<open>
  C5. When \<open>saveToCache\<close> of the prefixes \<open>P\<close> returns no error and the cache file can
  then be opened and read, \<open>loadFromCache\<close> returns \<open>P\<close>, in the same order, provided
  the JSON decoder reads back what the encoder wrote for this record and
  \<open>CIDRExpressionToPrefix\<close> reads back what \<open>String\<close> prints for each prefix of \<open>P\<close>.
\<close>

theorem cache_round_trip:
  "saveToCache e s P w = (None, w1) \<and> cachePath e s = Inr path
   \<and> io_fault w1 (OpOpen path) = None \<and> io_fault w1 (OpRead path) = None
   \<and> json_Decode e (json_Encode e \<lparr>Prefixes = map (Prefix_String e) P, UpdatedAt = now w\<rparr>)
       = Inr \<lparr>Prefixes = map (Prefix_String e) P, UpdatedAt = now w\<rparr>
   \<and> (\<forall>p \<in> set P. CIDRExpressionToPrefix e (Prefix_String e p) = Inr p)
   \<longrightarrow> loadFromCache e s w1 = Inr P"
proof
  assume h: "saveToCache e s P w = (None, w1) \<and> cachePath e s = Inr path
   \<and> io_fault w1 (OpOpen path) = None \<and> io_fault w1 (OpRead path) = None
   \<and> json_Decode e (json_Encode e \<lparr>Prefixes = map (Prefix_String e) P, UpdatedAt = now w\<rparr>)
       = Inr \<lparr>Prefixes = map (Prefix_String e) P, UpdatedAt = now w\<rparr>
   \<and> (\<forall>p \<in> set P. CIDRExpressionToPrefix e (Prefix_String e p) = Inr p)"
  then have f: "files w1 path
      = Some (json_Encode e \<lparr>Prefixes = map (Prefix_String e) P, UpdatedAt = now w\<rparr>)"
    using saveToCache_written [of e s P w w1 path] by simp
  have c: "cache_loop (CIDRExpressionToPrefix e) (map (Prefix_String e) P) [] = Inr ([] @ P)"
    using h by (intro cache_loop_String) simp
  show "loadFromCache e s w1 = Inr P"
    using h f c by (simp add: loadFromCache_def os_Open_def)
qed

theorem cache_round_trip_witness:
  "loadFromCache (ipv4_env srv_ok) listed
     (snd (saveToCache (ipv4_env srv_ok) listed two_prefixes stale_world)) = Inr two_prefixes"
proof -
  let ?e = "ipv4_env srv_ok"
  let ?w1 = "snd (saveToCache ?e listed two_prefixes stale_world)"
  let ?path = "''/data/ip-list-cache-687474703a2f2f6c697374.json''"
  have "fst (saveToCache ?e listed two_prefixes stale_world) = None" by code_simp
  then have a: "saveToCache ?e listed two_prefixes stale_world = (None, ?w1)"
    by (metis prod.collapse)
  have b: "cachePath ?e listed = Inr ?path" by code_simp
  have c: "io_fault ?w1 (OpOpen ?path) = None \<and> io_fault ?w1 (OpRead ?path) = None"
    by code_simp
  have d: "json_Decode ?e
      (json_Encode ?e \<lparr>Prefixes = map (Prefix_String ?e) two_prefixes, UpdatedAt = now stale_world\<rparr>)
      = Inr \<lparr>Prefixes = map (Prefix_String ?e) two_prefixes, UpdatedAt = now stale_world\<rparr>"
    by code_simp
  have e: "\<forall>p \<in> set two_prefixes. CIDRExpressionToPrefix ?e (Prefix_String ?e p) = Inr p"
    by code_simp
  show ?thesis
    using cache_round_trip [of ?e listed two_prefixes stale_world ?w1 ?path] a b c d e by blast
qed

text \<open>
  C10. When the cache file decodes to a record whose strings are all valid CIDR
  expressions, \<open>loadFromCache\<close> returns their prefixes whatever the time stamp \<open>t\<close> of
  the record and whatever the clock of the world; and when the aggregate fetch fails,
  \<open>Provision\<close> succeeds and publishes them.
\<close>

theorem load_ignores_timestamp:
  "(cachePath e s = Inr path \<and> files w path = Some bytes
      \<and> io_fault w (OpOpen path) = None \<and> io_fault w (OpRead path) = None
      \<and> json_Decode e bytes = Inr \<lparr>Prefixes = ps, UpdatedAt = t\<rparr>
      \<and> (\<forall>x \<in> set ps. \<exists>p. CIDRExpressionToPrefix e x = Inr p)
    \<longrightarrow> loadFromCache e s w = Inr (map (\<lambda>x. projr (CIDRExpressionToPrefix e x)) ps))
   \<and> (cachePath e s = Inr path \<and> files w path = Some bytes
      \<and> io_fault w (OpOpen path) = None \<and> io_fault w (OpRead path) = None
      \<and> json_Decode e bytes = Inr \<lparr>Prefixes = ps, UpdatedAt = t\<rparr>
      \<and> (\<forall>x \<in> set ps. \<exists>p. CIDRExpressionToPrefix e x = Inr p)
      \<and> fst (getPrefixes e s w) = Inl err
    \<longrightarrow> fst (Provision e s w) = None
        \<and> ranges (fst (snd (Provision e s w)))
            = map (\<lambda>x. projr (CIDRExpressionToPrefix e x)) ps)"
proof -
  have l: "loadFromCache e s w = Inr (map (\<lambda>x. projr (CIDRExpressionToPrefix e x)) ps)"
    if h: "cachePath e s = Inr path \<and> files w path = Some bytes
      \<and> io_fault w (OpOpen path) = None \<and> io_fault w (OpRead path) = None
      \<and> json_Decode e bytes = Inr \<lparr>Prefixes = ps, UpdatedAt = t\<rparr>
      \<and> (\<forall>x \<in> set ps. \<exists>p. CIDRExpressionToPrefix e x = Inr p)"
  proof -
    have "cache_loop (CIDRExpressionToPrefix e) ps []
        = Inr ([] @ map (\<lambda>x. projr (CIDRExpressionToPrefix e x)) ps)"
      using h by (intro cache_loop_valid) simp
    then show ?thesis using h by (simp add: loadFromCache_def os_Open_def)
  qed
  show ?thesis
  proof (intro conjI impI)
    assume "cachePath e s = Inr path \<and> files w path = Some bytes
      \<and> io_fault w (OpOpen path) = None \<and> io_fault w (OpRead path) = None
      \<and> json_Decode e bytes = Inr \<lparr>Prefixes = ps, UpdatedAt = t\<rparr>
      \<and> (\<forall>x \<in> set ps. \<exists>p. CIDRExpressionToPrefix e x = Inr p)"
    then show "loadFromCache e s w = Inr (map (\<lambda>x. projr (CIDRExpressionToPrefix e x)) ps)"
      by (rule l)
  next
    assume h: "cachePath e s = Inr path \<and> files w path = Some bytes
      \<and> io_fault w (OpOpen path) = None \<and> io_fault w (OpRead path) = None
      \<and> json_Decode e bytes = Inr \<lparr>Prefixes = ps, UpdatedAt = t\<rparr>
      \<and> (\<forall>x \<in> set ps. \<exists>p. CIDRExpressionToPrefix e x = Inr p)
      \<and> fst (getPrefixes e s w) = Inl err"
    then have "loadFromCache e s w = Inr (map (\<lambda>x. projr (CIDRExpressionToPrefix e x)) ps)"
      by (intro l) simp
    then show "fst (Provision e s w) = None"
      and "ranges (fst (snd (Provision e s w)))
            = map (\<lambda>x. projr (CIDRExpressionToPrefix e x)) ps"
      using h by (simp_all add: Provision_failed [of e s w err])
  qed
qed

theorem load_ignores_timestamp_witness:
  "now stale_world = 1700000000
   \<and> loadFromCache (ipv4_env srv_all_fail) listed stale_world = Inr [IPv4Prefix 10 0 0 0 8]
   \<and> fst (Provision (ipv4_env srv_all_fail) listed stale_world) = None
   \<and> ranges (fst (snd (Provision (ipv4_env srv_all_fail) listed stale_world)))
       = [IPv4Prefix 10 0 0 0 8]"
proof -
  let ?e = "ipv4_env srv_all_fail"
  let ?path = "''/data/ip-list-cache-687474703a2f2f6c697374.json''"
  let ?bytes = "encode_contents \<lparr>Prefixes = [''10.0.0.0/8''], UpdatedAt = 0\<rparr>"
  have a: "cachePath ?e listed = Inr ?path \<and> files stale_world ?path = Some ?bytes
      \<and> io_fault stale_world (OpOpen ?path) = None \<and> io_fault stale_world (OpRead ?path) = None"
    by code_simp
  have b: "json_Decode ?e ?bytes = Inr \<lparr>Prefixes = [''10.0.0.0/8''], UpdatedAt = 0\<rparr>"
    by code_simp
  have c: "CIDRExpressionToPrefix ?e ''10.0.0.0/8'' = Inr (IPv4Prefix 10 0 0 0 8)"
    by code_simp
  have d: "fst (getPrefixes ?e listed stale_world)
      = Inl (AfterRetries 2 (Some (HTTPStatusError ''http://list'' 500)))"
    by code_simp
  have n: "now stale_world = 1700000000" by (simp add: stale_world_def)
  show ?thesis
    using load_ignores_timestamp [of ?e listed ?path stale_world ?bytes "[''10.0.0.0/8'']" 0
        "AfterRetries 2 (Some (HTTPStatusError ''http://list'' 500))"] a b c d n
    by simp
qed

section \<open>The path of the cache file\<close>

lemma strings_Join_Cons:
  "strings_Join (a # elems) sep = a @ (if elems = [] then [] else sep @ strings_Join elems sep)"
  by (cases elems) simp_all

lemma strings_Join_inj:
  "\<forall>u \<in> set us. plain_url u \<Longrightarrow> \<forall>u \<in> set vs. plain_url u \<Longrightarrow>
   strings_Join us ''|'' = strings_Join vs ''|'' \<Longrightarrow> us = vs"
proof (induction us arbitrary: vs)
  case Nil
  show ?case
  proof (cases vs)
    case Nil
    then show ?thesis by simp
  next
    case (Cons b bs)
    with Nil.prems show ?thesis by (simp add: strings_Join_Cons plain_url_def)
  qed
next
  case (Cons a as)
  show ?case
  proof (cases vs)
    case Nil
    with Cons.prems show ?thesis by (simp add: strings_Join_Cons plain_url_def)
  next
    case vs: (Cons b bs)
    let ?ra = "if as = [] then [] else ''|'' @ strings_Join as ''|''"
    let ?rb = "if bs = [] then [] else ''|'' @ strings_Join bs ''|''"
    have eq: "a @ ?ra = b @ ?rb"
      using Cons.prems(3) vs by (simp only: strings_Join_Cons)
    have na: "CHR ''|'' \<notin> set a" and nb: "CHR ''|'' \<notin> set b"
      using Cons.prems(1,2) vs by (simp_all add: plain_url_def)
    have ta: "takeWhile (\<lambda>c. c \<noteq> CHR ''|'') (a @ ?ra) = a"
      using na by (induction a) auto
    have tb: "takeWhile (\<lambda>c. c \<noteq> CHR ''|'') (b @ ?rb) = b"
      using nb by (induction b) auto
    have ab: "a = b" using eq ta tb by simp
    then have r: "?ra = ?rb" using eq by simp
    have "as = bs"
    proof (cases "as = []")
      case True
      with r show ?thesis by (cases "bs = []") simp_all
    next
      case False
      with r have "bs \<noteq> []" by (cases "bs = []") simp_all
      with r False have "strings_Join as ''|'' = strings_Join bs ''|''" by simp
      then show ?thesis using Cons.prems(1,2) vs by (intro Cons.IH) simp_all
    qed
    with ab vs show ?thesis by simp
  qed
qed

text \<open>
  C6, as stated, gives configurations with different URL lists different paths. The list
  of the one URL \<open>http://a/?x|http://b/\<close> and the list of the two URLs \<open>http://a/?x\<close>
  and \<open>http://b/\<close> differ and have the same join, so the same path, whatever the digest.
\<close>

theorem cachePath_collision_counterexample:
  "[''http://a/?x|http://b/''] \<noteq> [''http://a/?x'', ''http://b/'']
   \<and> cachePath (ipv4_env srv_ok) (URLIPRange_zero\<lparr>URLs := [''http://a/?x|http://b/'']\<rparr>)
     = cachePath (ipv4_env srv_ok) (URLIPRange_zero\<lparr>URLs := [''http://a/?x'', ''http://b/'']\<rparr>)"
  by (simp add: cachePath_def URLIPRange_zero_def)

text \<open>
  C6, amended. A non-empty \<open>CacheFile\<close> is returned as it is. Otherwise the path is the
  file name made of the digest of the URLs joined by \<open>|\<close>, under the data directory or
  under \<open>.\<close> when there is none. Two configurations without \<open>CacheFile\<close> whose URL
  lists have the same join, so also two with the same list, have the same path. Two
  whose lists differ and hold only plain URLs have different paths, when the digest does
  not collide on the two joins and \<open>filepath.Join\<close> keeps the two names apart.
\<close>

theorem cachePath_resolution:
  "(CacheFile s \<noteq> [] \<longrightarrow> cachePath e s = Inr (CacheFile s))
   \<and> (CacheFile s = [] \<longrightarrow>
        cachePath e s = Inr (filepath_Join e (data_dir e) (cache_name e (URLs s))))
   \<and> (CacheFile s = [] \<and> CacheFile s' = []
        \<and> strings_Join (URLs s) ''|'' = strings_Join (URLs s') ''|''
      \<longrightarrow> cachePath e s = cachePath e s')
   \<and> (CacheFile s = [] \<and> CacheFile s' = [] \<and> URLs s \<noteq> URLs s'
        \<and> (\<forall>u \<in> set (URLs s) \<union> set (URLs s'). plain_url u)
        \<and> (Sum256_hex e (strings_Join (URLs s) ''|'') = Sum256_hex e (strings_Join (URLs s') ''|'')
            \<longrightarrow> strings_Join (URLs s) ''|'' = strings_Join (URLs s') ''|'')
        \<and> (filepath_Join e (data_dir e) (cache_name e (URLs s))
              = filepath_Join e (data_dir e) (cache_name e (URLs s'))
            \<longrightarrow> cache_name e (URLs s) = cache_name e (URLs s'))
      \<longrightarrow> cachePath e s \<noteq> cachePath e s')"
proof (intro conjI impI)
  show "cachePath e s = Inr (CacheFile s)" if "CacheFile s \<noteq> []"
    using that by (simp add: cachePath_def)
  show "cachePath e s = Inr (filepath_Join e (data_dir e) (cache_name e (URLs s)))"
    if "CacheFile s = []"
    using that by (simp add: cachePath_def data_dir_def cache_name_def)
  show "cachePath e s = cachePath e s'"
    if "CacheFile s = [] \<and> CacheFile s' = []
        \<and> strings_Join (URLs s) ''|'' = strings_Join (URLs s') ''|''"
    using that by (simp add: cachePath_def)
next
  assume h: "CacheFile s = [] \<and> CacheFile s' = [] \<and> URLs s \<noteq> URLs s'
        \<and> (\<forall>u \<in> set (URLs s) \<union> set (URLs s'). plain_url u)
        \<and> (Sum256_hex e (strings_Join (URLs s) ''|'') = Sum256_hex e (strings_Join (URLs s') ''|'')
            \<longrightarrow> strings_Join (URLs s) ''|'' = strings_Join (URLs s') ''|'')
        \<and> (filepath_Join e (data_dir e) (cache_name e (URLs s))
              = filepath_Join e (data_dir e) (cache_name e (URLs s'))
            \<longrightarrow> cache_name e (URLs s) = cache_name e (URLs s'))"
  have j: "strings_Join (URLs s) ''|'' \<noteq> strings_Join (URLs s') ''|''"
    using h strings_Join_inj [of "URLs s" "URLs s'"] by blast
  then have "Sum256_hex e (strings_Join (URLs s) ''|'') \<noteq> Sum256_hex e (strings_Join (URLs s') ''|'')"
    using h by blast
  then have "cache_name e (URLs s) \<noteq> cache_name e (URLs s')" by (simp add: cache_name_def)
  then have "filepath_Join e (data_dir e) (cache_name e (URLs s))
      \<noteq> filepath_Join e (data_dir e) (cache_name e (URLs s'))"
    using h by blast
  then show "cachePath e s \<noteq> cachePath e s'"
    using h by (simp add: cachePath_def data_dir_def cache_name_def)
qed

theorem cachePath_resolution_witness:
  "cachePath (ipv4_env srv_ok) (listed\<lparr>CacheFile := ''/var/lib/caddy/ip-list-cache.json''\<rparr>)
     = Inr ''/var/lib/caddy/ip-list-cache.json''
   \<and> cachePath (ipv4_env srv_ok) listed = Inr ''/data/ip-list-cache-687474703a2f2f6c697374.json''
   \<and> cachePath (ipv4_env srv_ok) listed \<noteq> cachePath (ipv4_env srv_ok) (listed\<lparr>URLs := [''http://other'']\<rparr>)"
proof -
  let ?e = "ipv4_env srv_ok"
  let ?o = "listed\<lparr>CacheFile := ''/var/lib/caddy/ip-list-cache.json''\<rparr>"
  let ?s' = "listed\<lparr>URLs := [''http://other'']\<rparr>"
  have a: "CacheFile ?o \<noteq> []" by (simp add: listed_def)
  have b: "CacheFile listed = []" "CacheFile ?s' = []"
    by (simp_all add: listed_def URLIPRange_zero_def)
  have n: "filepath_Join ?e (data_dir ?e) (cache_name ?e (URLs listed))
      = ''/data/ip-list-cache-687474703a2f2f6c697374.json''"
    by code_simp
  have c: "URLs listed \<noteq> URLs ?s' \<and> (\<forall>u \<in> set (URLs listed) \<union> set (URLs ?s'). plain_url u)"
    by code_simp
  have d: "Sum256_hex ?e (strings_Join (URLs listed) ''|'')
      \<noteq> Sum256_hex ?e (strings_Join (URLs ?s') ''|'')"
    by code_simp
  have f: "filepath_Join ?e (data_dir ?e) (cache_name ?e (URLs listed))
      \<noteq> filepath_Join ?e (data_dir ?e) (cache_name ?e (URLs ?s'))"
    by code_simp
  have 1: "cachePath ?e ?o = Inr ''/var/lib/caddy/ip-list-cache.json''"
    using cachePath_resolution [of ?o ?e ?o, THEN conjunct1] a by (simp add: listed_def)
  have 2: "cachePath ?e listed = Inr ''/data/ip-list-cache-687474703a2f2f6c697374.json''"
    using cachePath_resolution [of listed ?e listed, THEN conjunct2, THEN conjunct1] b(1) n by simp
  have 3: "cachePath ?e listed \<noteq> cachePath ?e ?s'"
    using cachePath_resolution [of listed ?e ?s', THEN conjunct2, THEN conjunct2, THEN conjunct2]
      b c d f by blast
  show ?thesis using 1 2 3 by blast
qed

end
